theory Spec2Isabelle
  imports Complex_Main
begin

section \<open>Vault Guardian: scheduler, archive builder, retention and orchestration\<close>

text \<open>
  A shallow embedding of \<^verbatim>\<open>src/main.ts\<close>: the classes \<^verbatim>\<open>BackupScheduler\<close> and
  \<^verbatim>\<open>VaultBackupPlugin\<close>. Conventions of the model:
  \<^item> a JavaScript \<^verbatim>\<open>number\<close> holding a time or an interval is a \<^typ>\<open>real\<close>, and
    each sum, product and quotient of the source is rounded to the nearest double
    (\<open>toDouble\<close>); overflow, subnormal numbers and NaN are left out; the keep-counts
    are \<^typ>\<open>int\<close>;
  \<^item> a string is a list of 8-bit characters; \<^verbatim>\<open>Buffer.from(s)\<close> is the string
    itself;
  \<^item> \<^verbatim>\<open>path.join(a, b)\<close> joins with one separator and does not normalise; a file
    on disk is addressed by the pair (directory, name) that the source joins;
  \<^item> every call of the host, of the file system or of the archive library that
    can throw has its outcome given as data (an \<open>option\<close>, a sum or a flag),
    so each \<^verbatim>\<open>catch\<close> of the source is a branch of the model;
  \<^item> \<^verbatim>\<open>Date.now()\<close> is a parameter, one per reading;
  \<^item> the status bar, the CSS classes put on notices and the two-second pauses
    are left out.
\<close>

subsection \<open>Strings and paths\<close>

definition endsWith :: "string \<Rightarrow> string \<Rightarrow> bool" where
  "endsWith s suf \<longleftrightarrow> length suf \<le> length s \<and> drop (length s - length suf) s = suf"

text \<open>White space removed by \<^verbatim>\<open>String.prototype.trim\<close>, as far as it fits in one byte.\<close>

definition isWhiteSpace :: "char \<Rightarrow> bool" where
  "isWhiteSpace c \<longleftrightarrow> c \<in> set [CHR 0x09, CHR 0x0A, CHR 0x0B, CHR 0x0C, CHR 0x0D, CHR 0x20, CHR 0xA0]"

definition trim :: "string \<Rightarrow> string" where
  "trim s = rev (dropWhile isWhiteSpace (rev (dropWhile isWhiteSpace s)))"

definition join :: "string \<Rightarrow> string \<Rightarrow> string" where
  "join a b = (if a = [] then b else if b = [] then a else a @ ''/'' @ b)"

definition isAbsolute :: "string \<Rightarrow> bool" where
  "isAbsolute p \<longleftrightarrow> (case p of [] \<Rightarrow> False | c # _ \<Rightarrow> c = CHR ''/'')"

text \<open>\<^verbatim>\<open>xs.slice(start)\<close>: a negative start counts from the end.\<close>

definition slice_from :: "int \<Rightarrow> 'a list \<Rightarrow> 'a list" where
  "slice_from start xs =
     (if start < 0 then drop (nat (int (length xs) + start)) xs else drop (nat start) xs)"

text \<open>\<^verbatim>\<open>s.slice(0, -5)\<close>.\<close>

definition slice_0_minus5 :: "string \<Rightarrow> string" where
  "slice_0_minus5 s = take (length s - 5) s"

subsection \<open>Numbers\<close>

text \<open>
  Arithmetic on doubles: the exact result is rounded to the nearest number with a
  significand of 53 bits, a tie going to the even significand. \<open>ulp x\<close> is the
  distance between neighbouring doubles in the binade of \<open>x\<close>.
\<close>

definition roundTiesToEven :: "real \<Rightarrow> int" where
  "roundTiesToEven y =
     (let f = \<lfloor>y\<rfloor> in
      if y - of_int f < 1 / 2 then f
      else if 1 / 2 < y - of_int f then f + 1
      else if even f then f else f + 1)"

definition ulp :: "real \<Rightarrow> real" where
  "ulp x = 2 powr of_int (\<lfloor>log 2 \<bar>x\<bar>\<rfloor> - 52)"

definition toDouble :: "real \<Rightarrow> real" where
  "toDouble x = (if x = 0 then 0 else sgn x * (ulp x * of_int (roundTiesToEven (\<bar>x\<bar> / ulp x))))"

subsection \<open>Settings and plugin state\<close>

record BackupPluginSettings =
  backupPath :: string
  secondaryBackupPath :: string
  autoBackupInterval :: real
  lastBackupTime :: real
  compressionLevel :: int
  maxBackupCount :: int
  secondaryMaxBackupCount :: int

definition DEFAULT_SETTINGS :: BackupPluginSettings where
  "DEFAULT_SETTINGS = \<lparr> backupPath = [], secondaryBackupPath = [], autoBackupInterval = 24,
     lastBackupTime = 0, compressionLevel = 9, maxBackupCount = 5,
     secondaryMaxBackupCount = 10 \<rparr>"

text \<open>
  A directory entry as \<^verbatim>\<open>readdir\<close>, \<^verbatim>\<open>stat\<close> and \<^verbatim>\<open>unlink\<close> see it: its name, its
  modification time (\<open>None\<close> when \<^verbatim>\<open>stat\<close> throws) and whether \<^verbatim>\<open>unlink\<close> throws.
\<close>

record dirent =
  fname :: string
  mtime :: "real option"
  undeletable :: bool

text \<open>A directory path is mapped to its listing; \<open>None\<close> when \<^verbatim>\<open>readdir\<close> throws.\<close>

type_synonym filesystem = "string \<Rightarrow> dirent list option"

text \<open>An archive is the sequence of its \<^verbatim>\<open>addFile\<close> calls: entry name and content.\<close>

type_synonym zip_entry = "string \<times> string"

datatype notice =
    NoPrimaryPath
  | StartingBackup
  | AddingFiles nat
  | VerifyingBackup
  | PartialObsidian
  | SecondaryMissing
  | BackupCreated
  | BackupFailed string

datatype console_msg =
    DeletedOldBackup string
  | FailedToDelete string
  | ErrorCleaning string
  | ErrorReadingFile string
  | SkippingProblematicPath
  | ErrorAccessingFolder
  | ErrorAddingObsidian
  | ErrorSecondary
  | BackupError string

text \<open>Who awaits a run of \<^verbatim>\<open>createBackup\<close> that is suspended at one of its awaits.\<close>

datatype caller = Forced | Ticked

record plugin_state =
  settings :: BackupPluginSettings
  isBackupInProgress :: bool
  nextBackupTime :: real
  savedData :: BackupPluginSettings
  disk :: filesystem
  archives :: "((string \<times> string) \<times> zip_entry list) list"
  notices :: "notice list"
  console :: "console_msg list"
  running :: "caller list"

definition notify :: "notice \<Rightarrow> plugin_state \<Rightarrow> plugin_state" where
  "notify n s = s\<lparr>notices := notices s @ [n]\<rparr>"

definition logConsole :: "console_msg \<Rightarrow> plugin_state \<Rightarrow> plugin_state" where
  "logConsole m s = s\<lparr>console := console s @ [m]\<rparr>"

subsection \<open>BackupScheduler\<close>

text \<open>
  \<^verbatim>\<open>scheduleNextBackup\<close> reads the clock up to three times: \<open>t1\<close> stands in for
  a zero \<^verbatim>\<open>lastBackupTime\<close>, \<open>t2\<close> is compared, \<open>t3\<close> is the base of the
  overdue rule.
\<close>

definition intervalMs :: "plugin_state \<Rightarrow> real" where
  "intervalMs s = toDouble (toDouble (toDouble (autoBackupInterval (settings s) * 60) * 60) * 1000)"

definition scheduleNextBackup :: "real \<Rightarrow> real \<Rightarrow> real \<Rightarrow> plugin_state \<Rightarrow> plugin_state" where
  "scheduleNextBackup t1 t2 t3 s =
     (let last = (if lastBackupTime (settings s) = 0 then t1 else lastBackupTime (settings s));
          next = toDouble (last + intervalMs s)
      in if next \<le> t2 then s\<lparr>nextBackupTime := toDouble (t3 + intervalMs s)\<rparr>
         else s\<lparr>nextBackupTime := next\<rparr>)"

definition rescheduleFromNow :: "real \<Rightarrow> plugin_state \<Rightarrow> plugin_state" where
  "rescheduleFromNow now s = s\<lparr>nextBackupTime := toDouble (now + intervalMs s)\<rparr>"

subsection \<open>Retention: cleanOldBackups and its helper cleanDirectory\<close>

type_synonym backup_file = "string \<times> real"

text \<open>\<^verbatim>\<open>Promise.all\<close> over the \<^verbatim>\<open>stat\<close> calls: one rejection rejects the whole.\<close>

fun statAll :: "dirent list \<Rightarrow> backup_file list option" where
  "statAll [] = Some []"
| "statAll (f # fs) =
     (case mtime f of
        None \<Rightarrow> None
      | Some t \<Rightarrow> (case statAll fs of None \<Rightarrow> None | Some bs \<Rightarrow> Some ((fname f, t) # bs)))"

text \<open>\<^verbatim>\<open>fs.unlink\<close>: throws (\<open>None\<close>) when the file is absent or cannot be removed.\<close>

definition unlink :: "string \<Rightarrow> string \<Rightarrow> filesystem \<Rightarrow> filesystem option" where
  "unlink dir n fs =
     (case fs dir of
        None \<Rightarrow> None
      | Some files \<Rightarrow>
          if \<exists>f \<in> set files. fname f = n \<and> \<not> undeletable f
          then Some (fs(dir := Some (filter (\<lambda>f. fname f \<noteq> n) files)))
          else None)"

fun deleteFiles :: "string \<Rightarrow> backup_file list \<Rightarrow> plugin_state \<Rightarrow> plugin_state" where
  "deleteFiles dir [] s = s"
| "deleteFiles dir (file # rest) s =
     deleteFiles dir rest
       (case unlink dir (fst file) (disk s) of
          Some fs' \<Rightarrow> logConsole (DeletedOldBackup (fst file)) (s\<lparr>disk := fs'\<rparr>)
        | None \<Rightarrow> logConsole (FailedToDelete (fst file)) s)"

definition isZip :: "dirent \<Rightarrow> bool" where
  "isZip f \<longleftrightarrow> endsWith (fname f) ''.zip''"

definition sortNewestFirst :: "backup_file list \<Rightarrow> backup_file list" where
  "sortNewestFirst bs = sort_key (\<lambda>b. - snd b) bs"

definition cleanDirectory :: "string \<Rightarrow> int \<Rightarrow> plugin_state \<Rightarrow> plugin_state" where
  "cleanDirectory backupDir retentionCount s =
     (case disk s backupDir of
        None \<Rightarrow> logConsole (ErrorCleaning backupDir) s
      | Some files \<Rightarrow>
          (case statAll (filter isZip files) of
             None \<Rightarrow> logConsole (ErrorCleaning backupDir) s
           | Some backupFiles \<Rightarrow>
               deleteFiles backupDir
                 (slice_from retentionCount (sortNewestFirst backupFiles)) s))"

definition secondaryConfigured :: "BackupPluginSettings \<Rightarrow> bool" where
  "secondaryConfigured st \<longleftrightarrow> secondaryBackupPath st \<noteq> [] \<and> trim (secondaryBackupPath st) \<noteq> []"

text \<open>
  \<^verbatim>\<open>adapterBackupPath\<close> is what the host's \<^verbatim>\<open>adapter.backupPath()\<close> returns; it is
  read only when the primary path is the empty string.
\<close>

definition cleanOldBackups :: "string \<Rightarrow> plugin_state \<Rightarrow> plugin_state" where
  "cleanOldBackups adapterBackupPath s =
     (if maxBackupCount (settings s) \<le> 0 then s
      else
        let primaryBackupDir =
              (if backupPath (settings s) \<noteq> [] then backupPath (settings s) else adapterBackupPath);
            s1 = cleanDirectory primaryBackupDir (maxBackupCount (settings s)) s
        in if secondaryConfigured (settings s1)
           then cleanDirectory (secondaryBackupPath (settings s1))
                  (secondaryMaxBackupCount (settings s1)) s1
           else s1)"

subsection \<open>The archive builder\<close>

text \<open>
  What \<^verbatim>\<open>lstat\<close> and the reads find at a path of the metadata tree:
  \<^item> a symbolic link, with the result of \<^verbatim>\<open>readlink\<close> (\<open>None\<close> when it throws) and
    the node the link points to, if any, which \<^verbatim>\<open>lstat\<close> does not look at;
  \<^item> a directory, with the result of \<^verbatim>\<open>readdir\<close> on it (\<open>None\<close> when it throws);
  \<^item> a regular file, with the results of reading it raw and of reading it as UTF-8;
  \<^item> something else (a socket, a device), or a path where \<^verbatim>\<open>lstat\<close> throws.
\<close>

datatype fsnode =
    SymbolicLink "string option" "fsnode option"
  | Directory "(string \<times> fsnode) list option"
  | RegularFile "string option" "string option"
  | OtherNode
  | NoStat

datatype zip_event = AddFile string string | Console console_msg

text \<open>
  \<^verbatim>\<open>addFolderToZip\<close> returns its calls of \<^verbatim>\<open>zip.addFile\<close> and of the console, in
  order, and whether it threw; \<open>addChildren\<close> is its \<^verbatim>\<open>for\<close> loop and \<open>addChild\<close>
  the loop's body.
\<close>

function (sequential) addFolderToZip :: "(string \<times> fsnode) list option \<Rightarrow> string \<Rightarrow> zip_event list \<times> bool"
  and addChildren :: "(string \<times> fsnode) list \<Rightarrow> string \<Rightarrow> zip_event list"
  and addChild :: "string \<Rightarrow> fsnode \<Rightarrow> string \<Rightarrow> zip_event list"
where
  "addFolderToZip None zipBasePath = ([Console ErrorAccessingFolder], True)"
| "addFolderToZip (Some files) zipBasePath = (addChildren files zipBasePath, False)"
| "addChildren [] zipBasePath = []"
| "addChildren ((name, node) # rest) zipBasePath =
     addChild name node (join zipBasePath name) @ addChildren rest zipBasePath"
| "addChild name (SymbolicLink (Some linkTarget) referent) zipPath = [AddFile zipPath linkTarget]"
| "addChild name (SymbolicLink None referent) zipPath = [Console SkippingProblematicPath]"
| "addChild name (Directory listing) zipPath =
     AddFile (zipPath @ ''/'') [] #
       (case addFolderToZip listing zipPath of
          (events, True) \<Rightarrow> events @ [Console SkippingProblematicPath]
        | (events, False) \<Rightarrow> events)"
| "addChild name (RegularFile (Some content) asText) zipPath = [AddFile zipPath content]"
| "addChild name (RegularFile None (Some content)) zipPath = [AddFile zipPath content]"
| "addChild name (RegularFile None None) zipPath = [Console (ErrorReadingFile zipPath)]"
| "addChild name OtherNode zipPath = []"
| "addChild name NoStat zipPath = [Console SkippingProblematicPath]"
  by pat_completeness auto
termination
  by (relation "measure (\<lambda>x. case x of
        Inl (listing, _) \<Rightarrow> size_option (size_list (size_prod (\<lambda>_. 0) size)) listing
      | Inr (Inl (files, _)) \<Rightarrow> size_list (size_prod (\<lambda>_. 0) size) files
      | Inr (Inr (_, node, _)) \<Rightarrow> size node)") auto

fun zipEntries :: "zip_event list \<Rightarrow> zip_entry list" where
  "zipEntries [] = []"
| "zipEntries (AddFile p c # es) = (p, c) # zipEntries es"
| "zipEntries (Console m # es) = zipEntries es"

fun consoleMsgs :: "zip_event list \<Rightarrow> console_msg list" where
  "consoleMsgs [] = []"
| "consoleMsgs (AddFile p c # es) = consoleMsgs es"
| "consoleMsgs (Console m # es) = m # consoleMsgs es"

subsection \<open>createBackup\<close>

text \<open>
  What one run of \<^verbatim>\<open>createBackup\<close> receives from the host and the file system:
  the vault's files with the result of \<^verbatim>\<open>vault.read\<close> on each (\<open>Inl\<close> the message of
  the error thrown), the listing of the \<^verbatim>\<open>.obsidian\<close> folder, the clock, and the outcome
  of each call that can throw (an error of \<^verbatim>\<open>mkdir\<close> is its code and its message).
  \<^verbatim>\<open>zip.writeZip\<close> has three outcomes: it writes the file, it throws, or it returns
  without throwing and without writing, as the archive library does when the target
  path is a directory.
\<close>

datatype write_outcome = Written | WriteThrows string | NotWritten

record run_env =
  vaultFiles :: "(string \<times> (string + string)) list"
  vaultPath :: string
  vaultName :: string
  obsidianFolder :: "(string \<times> fsnode) list option"
  isoString :: string
  mkdirError :: "(string \<times> string) option"
  writeZipOutcome :: write_outcome
  writeTime :: real
  copyFileFails :: bool
  nowAfterCopy :: real
  saveDataError :: "string option"
  adapterBackupPath :: string

text \<open>An exception caught by the outer \<^verbatim>\<open>catch\<close>: its message and the state it leaves.\<close>

type_synonym 'a attempt = "(string \<times> plugin_state) + 'a"

text \<open>\<^verbatim>\<open>Math.round((processedFiles / totalFiles) * 100)\<close>.\<close>

definition percent :: "nat \<Rightarrow> nat \<Rightarrow> nat" where
  "percent processedFiles totalFiles =
     nat (round (toDouble (toDouble (real processedFiles / real totalFiles) * 100)))"

fun addVaultFiles ::
  "(string \<times> (string + string)) list \<Rightarrow> nat \<Rightarrow> nat \<Rightarrow> zip_entry list \<Rightarrow> plugin_state
     \<Rightarrow> (zip_entry list \<times> plugin_state) attempt" where
  "addVaultFiles [] processedFiles totalFiles zipFile s = Inr (zipFile, s)"
| "addVaultFiles ((path, Inl message) # rest) processedFiles totalFiles zipFile s = Inl (message, s)"
| "addVaultFiles ((path, Inr content) # rest) processedFiles totalFiles zipFile s =
     addVaultFiles rest (Suc processedFiles) totalFiles (zipFile @ [(path, content)])
       (notify (AddingFiles (percent (Suc processedFiles) totalFiles)) s)"

fun logAll :: "console_msg list \<Rightarrow> plugin_state \<Rightarrow> plugin_state" where
  "logAll [] s = s"
| "logAll (m # ms) s = logAll ms (logConsole m s)"

text \<open>The \<^verbatim>\<open>.obsidian\<close> folder: a throw of \<^verbatim>\<open>addFolderToZip\<close> is caught and announced.\<close>

definition addObsidianFolder :: "run_env \<Rightarrow> zip_entry list \<Rightarrow> plugin_state \<Rightarrow> zip_entry list \<times> plugin_state" where
  "addObsidianFolder env zipFile s =
     (let s1 = notify VerifyingBackup s in
      case addFolderToZip (obsidianFolder env) ''.obsidian'' of
        (events, False) \<Rightarrow> (zipFile @ zipEntries events, logAll (consoleMsgs events) s1)
      | (events, True) \<Rightarrow>
          (zipFile @ zipEntries events,
           notify PartialObsidian (logConsole ErrorAddingObsidian (logAll (consoleMsgs events) s1))))"

text \<open>\<^verbatim>\<open>now.toISOString().replace(/[:.]/g, '-').slice(0, -5)\<close> and the file name.\<close>

definition timestamp :: "string \<Rightarrow> string" where
  "timestamp isoText =
     slice_0_minus5 (map (\<lambda>c. if c = CHR '':'' \<or> c = CHR ''.'' then CHR ''-'' else c) isoText)"

definition zipName :: "run_env \<Rightarrow> string" where
  "zipName env = timestamp (isoString env) @ ''_'' @ vaultName env @ ''.zip''"

text \<open>\<^verbatim>\<open>ensureBackupDir\<close>: \<^verbatim>\<open>mkdir\<close> with \<^verbatim>\<open>recursive\<close>; only the code EEXIST is swallowed.\<close>

definition ensureBackupDir :: "run_env \<Rightarrow> string \<Rightarrow> plugin_state \<Rightarrow> plugin_state attempt" where
  "ensureBackupDir env path s =
     (case mkdirError env of
        None \<Rightarrow>
          Inr (s\<lparr>disk := (disk s)(path := Some (case disk s path of None \<Rightarrow> [] | Some files \<Rightarrow> files))\<rparr>)
      | Some (code, message) \<Rightarrow> if code \<noteq> ''EEXIST'' then Inl (message, s) else Inr s)"

text \<open>\<^verbatim>\<open>getBackupPath\<close>: the directory and the file name that the source joins.\<close>

definition getBackupPath :: "run_env \<Rightarrow> plugin_state \<Rightarrow> string \<Rightarrow> string \<times> string" where
  "getBackupPath env s filename =
     (if backupPath (settings s) = [] then (vaultPath env, filename)
      else if isAbsolute (backupPath (settings s)) then (backupPath (settings s), filename)
      else (join (vaultPath env) (backupPath (settings s)), filename))"

text \<open>Putting a file into a directory: an entry of the same name is replaced.\<close>

definition putFile :: "string \<times> string \<Rightarrow> real \<Rightarrow> filesystem \<Rightarrow> filesystem" where
  "putFile p t fs =
     fs(fst p := Some (filter (\<lambda>f. fname f \<noteq> snd p) (case fs (fst p) of None \<Rightarrow> [] | Some files \<Rightarrow> files)
                        @ [\<lparr>fname = snd p, mtime = Some t, undeletable = False\<rparr>]))"

text \<open>\<^verbatim>\<open>zip.writeZip(backupPath)\<close>, which creates a missing folder itself.\<close>

definition writeZip :: "run_env \<Rightarrow> zip_entry list \<Rightarrow> string \<times> string \<Rightarrow> plugin_state \<Rightarrow> plugin_state attempt" where
  "writeZip env zipFile p s =
     (case writeZipOutcome env of
        WriteThrows message \<Rightarrow> Inl (message, s)
      | NotWritten \<Rightarrow> Inr s
      | Written \<Rightarrow>
          Inr (s\<lparr>disk := putFile p (writeTime env) (disk s), archives := archives s @ [(p, zipFile)]\<rparr>))"

text \<open>
  The secondary copy: a failure of \<^verbatim>\<open>copyFile\<close> is caught and announced. It fails
  when the source was not written, when the secondary folder is missing, or otherwise.
\<close>

definition copyToSecondary :: "run_env \<Rightarrow> zip_entry list \<Rightarrow> plugin_state \<Rightarrow> plugin_state" where
  "copyToSecondary env zipFile s =
     (if secondaryConfigured (settings s) then
        (if writeZipOutcome env = NotWritten \<or> copyFileFails env
            \<or> disk s (secondaryBackupPath (settings s)) = None
         then notify SecondaryMissing (logConsole ErrorSecondary s)
         else s\<lparr>disk := putFile (secondaryBackupPath (settings s), zipName env) (writeTime env) (disk s),
                archives := archives s @ [((secondaryBackupPath (settings s), zipName env), zipFile)]\<rparr>)
      else s)"

definition saveSettings :: "run_env \<Rightarrow> plugin_state \<Rightarrow> plugin_state attempt" where
  "saveSettings env s =
     (case saveDataError env of
        Some message \<Rightarrow> Inl (message, s)
      | None \<Rightarrow> Inr (s\<lparr>savedData := settings s\<rparr>))"

text \<open>
  \<^verbatim>\<open>createBackup\<close> is an \<^verbatim>\<open>async\<close> function: a call runs it up to its first
  \<^verbatim>\<open>await\<close> and returns. \<open>createBackup_begin\<close> is that synchronous part (the path
  check, the flag, the first notice) and says whether the run went on into the
  \<^verbatim>\<open>try\<close> block; \<open>createBackup_try\<close> is the rest of the \<^verbatim>\<open>try\<close> block,
  \<open>createBackup_rest\<close> adds \<^verbatim>\<open>catch\<close> and \<^verbatim>\<open>finally\<close>, and \<open>createBackup\<close> is a
  call that is awaited to its end with nothing running in between.
\<close>

definition createBackup_begin :: "plugin_state \<Rightarrow> plugin_state \<times> bool" where
  "createBackup_begin s =
     (if backupPath (settings s) = [] \<or> trim (backupPath (settings s)) = []
      then (notify NoPrimaryPath s, False)
      else (notify StartingBackup (s\<lparr>isBackupInProgress := True\<rparr>), True))"

definition createBackup_try :: "run_env \<Rightarrow> plugin_state \<Rightarrow> plugin_state attempt" where
  "createBackup_try env s =
     (case addVaultFiles (vaultFiles env) 0 (length (vaultFiles env)) [] s of
        Inl e \<Rightarrow> Inl e
      | Inr (zipFile1, s1) \<Rightarrow>
          (case addObsidianFolder env zipFile1 s1 of
             (zipFile, s2) \<Rightarrow>
               (case (if backupPath (settings s2) \<noteq> []
                      then ensureBackupDir env
                             (if isAbsolute (backupPath (settings s2)) then backupPath (settings s2)
                              else join (vaultPath env) (backupPath (settings s2))) s2
                      else Inr s2) of
                  Inl e \<Rightarrow> Inl e
                | Inr s3 \<Rightarrow>
                    (case writeZip env zipFile (getBackupPath env s3 (zipName env)) s3 of
                       Inl e \<Rightarrow> Inl e
                     | Inr s4 \<Rightarrow>
                         (let s5 = copyToSecondary env zipFile s4;
                              s6 = s5\<lparr>settings := (settings s5)\<lparr>lastBackupTime := nowAfterCopy env\<rparr>\<rparr>
                          in case saveSettings env s6 of
                               Inl e \<Rightarrow> Inl e
                             | Inr s7 \<Rightarrow>
                                 Inr (notify BackupCreated
                                        (cleanOldBackups (adapterBackupPath env) s7)))))))"

definition createBackup_rest :: "run_env \<Rightarrow> plugin_state \<Rightarrow> plugin_state" where
  "createBackup_rest env s =
     (case createBackup_try env s of
        Inl (message, s') \<Rightarrow>
          (logConsole (BackupError message) (notify (BackupFailed message) s'))\<lparr>isBackupInProgress := False\<rparr>
      | Inr s' \<Rightarrow> s'\<lparr>isBackupInProgress := False\<rparr>)"

definition createBackup :: "run_env \<Rightarrow> plugin_state \<Rightarrow> plugin_state" where
  "createBackup env s =
     (case createBackup_begin s of
        (s', False) \<Rightarrow> s'
      | (s', True) \<Rightarrow> createBackup_rest env s')"

subsection \<open>The scheduler's calls of createBackup\<close>

text \<open>
  \<open>running\<close> lists the runs that are past \<open>createBackup_begin\<close> and not yet
  finished, each with its caller. \<^verbatim>\<open>forceBackupNow\<close> does not await the run;
  the tick \<^verbatim>\<open>checkAndRunBackup\<close> awaits it and reschedules afterwards (at once when
  the run was rejected at the path check). \<open>finishRun\<close> resumes the \<open>i\<close>-th
  suspended run and takes it to its end.
\<close>

definition isBackingUp :: "plugin_state \<Rightarrow> bool" where
  "isBackingUp s = isBackupInProgress s"

definition forceBackupNow :: "real \<Rightarrow> real \<Rightarrow> real \<Rightarrow> plugin_state \<Rightarrow> plugin_state" where
  "forceBackupNow t1 t2 t3 s =
     (case createBackup_begin s of
        (s', started) \<Rightarrow>
          scheduleNextBackup t1 t2 t3 (if started then s'\<lparr>running := running s' @ [Forced]\<rparr> else s'))"

definition checkAndRunBackup :: "real \<Rightarrow> real \<Rightarrow> real \<Rightarrow> real \<Rightarrow> plugin_state \<Rightarrow> plugin_state" where
  "checkAndRunBackup now t1 t2 t3 s =
     (if now \<ge> nextBackupTime s \<and> \<not> isBackingUp s then
        (case createBackup_begin s of
           (s', True) \<Rightarrow> s'\<lparr>running := running s' @ [Ticked]\<rparr>
         | (s', False) \<Rightarrow> scheduleNextBackup t1 t2 t3 s')
      else s)"

definition finishRun :: "nat \<Rightarrow> run_env \<Rightarrow> real \<Rightarrow> real \<Rightarrow> real \<Rightarrow> plugin_state \<Rightarrow> plugin_state" where
  "finishRun i env t1 t2 t3 s =
     (if i < length (running s) then
        (let s' = createBackup_rest env (s\<lparr>running := take i (running s) @ drop (Suc i) (running s)\<rparr>)
         in if running s ! i = Ticked then scheduleNextBackup t1 t2 t3 s' else s')
      else s)"

text \<open>
  The states the plugin can be in: it starts with no run and the flag clear; the user
  forces a backup, edits the settings or changes the interval, the timer ticks, and a
  suspended run comes to its end.
\<close>

inductive reachable :: "plugin_state \<Rightarrow> bool" where
  idle: "\<not> isBackupInProgress s \<Longrightarrow> running s = [] \<Longrightarrow> reachable s"
| force: "reachable s \<Longrightarrow> reachable (forceBackupNow t1 t2 t3 s)"
| tick: "reachable s \<Longrightarrow> reachable (checkAndRunBackup now t1 t2 t3 s)"
| finish: "reachable s \<Longrightarrow> i < length (running s) \<Longrightarrow> reachable (finishRun i env t1 t2 t3 s)"
| edit: "reachable s \<Longrightarrow> reachable (s\<lparr>settings := st\<rparr>)"
| reschedule: "reachable s \<Longrightarrow> reachable (rescheduleFromNow now s)"

subsection \<open>Frames and concrete inputs\<close>

text \<open>\<open>s'\<close> differs from \<open>s\<close> at most in the disk and in the console.\<close>

definition onlyDiskConsole :: "plugin_state \<Rightarrow> plugin_state \<Rightarrow> bool" where
  "onlyDiskConsole s s' \<longleftrightarrow>
     settings s' = settings s \<and> isBackupInProgress s' = isBackupInProgress s \<and>
     nextBackupTime s' = nextBackupTime s \<and> savedData s' = savedData s \<and>
     archives s' = archives s \<and> notices s' = notices s \<and> running s' = running s"

text \<open>
  A configuration with two destinations, the primary keeping two archives and the
  secondary set to 0, a disk with archives in both, and a run in which no call fails.
\<close>

definition demo_settings :: BackupPluginSettings where
  "demo_settings = \<lparr> backupPath = ''/backups'', secondaryBackupPath = ''/mirror'',
     autoBackupInterval = 1, lastBackupTime = 2800000, compressionLevel = 9, maxBackupCount = 2,
     secondaryMaxBackupCount = 0 \<rparr>"

definition demo_disk :: filesystem where
  "demo_disk = (\<lambda>_. None)
     (''/backups'' := Some [\<lparr>fname = ''a.zip'', mtime = Some 1, undeletable = False\<rparr>,
                           \<lparr>fname = ''b.zip'', mtime = Some 3, undeletable = False\<rparr>,
                           \<lparr>fname = ''notes.txt'', mtime = Some 9, undeletable = False\<rparr>],
      ''/mirror'' := Some [\<lparr>fname = ''a.zip'', mtime = Some 1, undeletable = False\<rparr>,
                          \<lparr>fname = ''b.zip'', mtime = Some 3, undeletable = False\<rparr>])"

definition demo_state :: plugin_state where
  "demo_state = \<lparr> settings = demo_settings, isBackupInProgress = False, nextBackupTime = 0,
     savedData = demo_settings, disk = demo_disk, archives = [], notices = [], console = [],
     running = [] \<rparr>"

definition demo_env :: run_env where
  "demo_env = \<lparr> vaultFiles = [(''note.md'', Inr ''hello'')], vaultPath = ''/vault'',
     vaultName = ''V'', obsidianFolder = Some [],
     isoString = ''2024-01-02T03:04:05.678Z'', mkdirError = None, writeZipOutcome = Written,
     writeTime = 10, copyFileFails = False, nowAfterCopy = 11, saveDataError = None,
     adapterBackupPath = ''/vault'' \<rparr>"

text \<open>The primary keep-count at 0 and the secondary at 1.\<close>

definition gate_state :: plugin_state where
  "gate_state = demo_state\<lparr>settings := demo_settings\<lparr>maxBackupCount := 0, secondaryMaxBackupCount := 1\<rparr>\<rparr>"

text \<open>
  The state after a tick that was due has started a run, which is now suspended; and
  that state after the primary path was edited to blanks in the settings tab.
\<close>

definition busy_state :: plugin_state where
  "busy_state = checkAndRunBackup 20000000 20000000 20000000 20000000 demo_state"

definition rejected_state :: plugin_state where
  "rejected_state = busy_state\<lparr>settings := demo_settings\<lparr>backupPath := ''  ''\<rparr>\<rparr>"

text \<open>
  \<open>s'\<close> differs from \<open>s\<close> at most in the notices, in the console and in
  directories that exist in \<open>s'\<close> only. Below it: every \<^verbatim>\<open>vault.read\<close> of the run
  succeeds; \<^verbatim>\<open>ensureBackupDir\<close> does not throw; the archive entries of the vault's
  files; the progress notices of the loop over them; a run in which \<^verbatim>\<open>writeZip\<close> throws.
\<close>

definition untouched :: "plugin_state \<Rightarrow> plugin_state \<Rightarrow> bool" where
  "untouched s s' \<longleftrightarrow>
     settings s' = settings s \<and> isBackupInProgress s' = isBackupInProgress s \<and>
     nextBackupTime s' = nextBackupTime s \<and> savedData s' = savedData s \<and>
     archives s' = archives s \<and> running s' = running s \<and>
     (\<forall>d files. disk s d = Some files \<longrightarrow> disk s' d = Some files)"

definition readsSucceed :: "run_env \<Rightarrow> bool" where
  "readsSucceed env \<longleftrightarrow> list_all (\<lambda>f. case snd f of Inl _ \<Rightarrow> False | Inr _ \<Rightarrow> True) (vaultFiles env)"

definition mkdirSucceeds :: "run_env \<Rightarrow> bool" where
  "mkdirSucceeds env \<longleftrightarrow> (case mkdirError env of None \<Rightarrow> True | Some e \<Rightarrow> fst e = ''EEXIST'')"

fun vaultEntries :: "(string \<times> (string + string)) list \<Rightarrow> zip_entry list" where
  "vaultEntries [] = []"
| "vaultEntries ((path, Inr content) # rest) = (path, content) # vaultEntries rest"
| "vaultEntries ((path, Inl message) # rest) = vaultEntries rest"

fun progressNotices :: "nat \<Rightarrow> nat \<Rightarrow> 'a list \<Rightarrow> notice list" where
  "progressNotices processedFiles totalFiles [] = []"
| "progressNotices processedFiles totalFiles (f # rest) =
     AddingFiles (percent (Suc processedFiles) totalFiles) # progressNotices (Suc processedFiles) totalFiles rest"


text \<open>
  A metadata folder with a link to a directory, a link to itself and a link inside a
  subfolder.
\<close>

definition linked_folder :: "(string \<times> fsnode) list" where
  "linked_folder =
     [(''app.json'', RegularFile (Some ''{}'') (Some ''{}'')),
      (''themes'', SymbolicLink (Some ''/shared/themes'')
         (Some (Directory (Some [(''dark.css'', RegularFile (Some ''body'') (Some ''body''))])))),
      (''loop'', SymbolicLink (Some ''.'') None),
      (''plugins'', Directory (Some [(''cfg'', SymbolicLink (Some ''../cfg.json'') (Some NoStat))]))]"

text \<open>
  A metadata folder of ten files: \<^verbatim>\<open>workspace.json\<close> can be read neither raw nor as
  text, \<^verbatim>\<open>bookmarks.json\<close> only as text. Two runs on it, and on the same folder with
  \<^verbatim>\<open>workspace.json\<close> readable.
\<close>

definition ten_files :: "(string \<times> fsnode) list" where
  "ten_files =
     [(''app.json'', RegularFile (Some ''a'') (Some ''a'')),
      (''appearance.json'', RegularFile (Some ''b'') (Some ''b'')),
      (''community-plugins.json'', RegularFile (Some ''c'') (Some ''c'')),
      (''workspace.json'', RegularFile None None),
      (''core-plugins.json'', RegularFile (Some ''d'') (Some ''d'')),
      (''graph.json'', RegularFile (Some ''e'') (Some ''e'')),
      (''hotkeys.json'', RegularFile (Some ''f'') (Some ''f'')),
      (''types.json'', RegularFile (Some ''g'') (Some ''g'')),
      (''bookmarks.json'', RegularFile None (Some ''h'')),
      (''templates.json'', RegularFile (Some ''i'') (Some ''i''))]"

definition ten_env :: run_env where
  "ten_env = demo_env\<lparr>obsidianFolder := Some ten_files\<rparr>"

definition ten_readable_env :: run_env where
  "ten_readable_env = demo_env\<lparr>obsidianFolder :=
     Some (ten_files[3 := (''workspace.json'', RegularFile (Some ''w'') (Some ''w''))])\<rparr>"

text \<open>
  A primary directory with five archives of distinct modification times and one other
  file; and what \<^verbatim>\<open>stat\<close> makes of a directory entry whose time can be read.
\<close>

definition five_files :: "dirent list" where
  "five_files =
     [\<lparr>fname = ''wed.zip'', mtime = Some 300, undeletable = False\<rparr>,
      \<lparr>fname = ''mon.zip'', mtime = Some 100, undeletable = False\<rparr>,
      \<lparr>fname = ''fri.zip'', mtime = Some 500, undeletable = False\<rparr>,
      \<lparr>fname = ''readme.txt'', mtime = Some 900, undeletable = False\<rparr>,
      \<lparr>fname = ''tue.zip'', mtime = Some 200, undeletable = False\<rparr>,
      \<lparr>fname = ''thu.zip'', mtime = Some 400, undeletable = False\<rparr>]"

definition five_state :: plugin_state where
  "five_state = demo_state\<lparr>disk := (\<lambda>_. None)(''/backups'' := Some five_files)\<rparr>"

definition stat1 :: "dirent \<Rightarrow> backup_file" where
  "stat1 f = (fname f, case mtime f of Some t \<Rightarrow> t | None \<Rightarrow> 0)"

text \<open>
  The settings never backed up, with an interval of \<open>1 / 2 ^ 40\<close> hours, as a
  hand-edited settings file can hold.
\<close>

definition tiny_state :: plugin_state where
  "tiny_state = demo_state\<lparr>settings := demo_settings\<lparr>autoBackupInterval := 1 / 2 ^ 40,
     lastBackupTime := 0\<rparr>\<rparr>"



text \<open>
  A symbolic link with a target that \<^verbatim>\<open>readlink\<close> returns lies in a metadata folder at
  an archive path: in the folder itself, or in a subfolder that can be listed.
\<close>

inductive linkAt :: "(string \<times> fsnode) list \<Rightarrow> string \<Rightarrow> string \<Rightarrow> string \<Rightarrow> bool" where
  here: "(name, SymbolicLink (Some linkTarget) referent) \<in> set files \<Longrightarrow>
         linkAt files zipBasePath (join zipBasePath name) linkTarget"
| below: "(name, Directory (Some children)) \<in> set files \<Longrightarrow>
          linkAt children (join zipBasePath name) zipPath linkTarget \<Longrightarrow>
          linkAt files zipBasePath zipPath linkTarget"

text \<open>
  A run on a metadata folder with a link whose target cannot be read, and a run on the
  folder with the three readable links.
\<close>

definition unreadable_link_env :: run_env where
  "unreadable_link_env = demo_env\<lparr>obsidianFolder :=
     Some [(''app.json'', RegularFile (Some ''{}'') (Some ''{}'')),
           (''themes'', SymbolicLink None (Some (Directory (Some []))))]\<rparr>"

definition linked_env :: run_env where
  "linked_env = demo_env\<lparr>obsidianFolder := Some linked_folder\<rparr>"

section \<open>Properties\<close>

lemmas demo_defs = demo_settings_def demo_disk_def demo_state_def demo_env_def

subsection \<open>What retention leaves alone\<close>

lemma onlyDiskConsole_refl: "onlyDiskConsole s s"
  by (simp add: onlyDiskConsole_def)

lemma onlyDiskConsole_trans:
  "onlyDiskConsole s s' \<Longrightarrow> onlyDiskConsole s' s'' \<Longrightarrow> onlyDiskConsole s s''"
  by (simp add: onlyDiskConsole_def)

lemma onlyDiskConsole_log: "onlyDiskConsole s (logConsole m s)"
  by (simp add: onlyDiskConsole_def logConsole_def)

lemma deleteFiles_frame: "onlyDiskConsole s (deleteFiles dir bs s)"
proof (induction bs arbitrary: s)
  case Nil
  show ?case by (simp add: onlyDiskConsole_refl)
next
  case (Cons b rest)
  have step: "onlyDiskConsole s (case unlink dir (fst b) (disk s) of
          Some fs' \<Rightarrow> logConsole (DeletedOldBackup (fst b)) (s\<lparr>disk := fs'\<rparr>)
        | None \<Rightarrow> logConsole (FailedToDelete (fst b)) s)"
    by (simp add: onlyDiskConsole_def logConsole_def split: option.splits)
  show ?case
    unfolding deleteFiles.simps by (rule onlyDiskConsole_trans [OF step Cons.IH])
qed

lemma cleanDirectory_frame: "onlyDiskConsole s (cleanDirectory dir n s)"
  by (simp add: cleanDirectory_def deleteFiles_frame onlyDiskConsole_log split: option.splits)

lemma cleanDirectory_settings: "settings (cleanDirectory dir n s) = settings s"
  using cleanDirectory_frame [of s dir n] by (simp add: onlyDiskConsole_def)

lemma unlink_other: "unlink dir n fs = Some fs' \<Longrightarrow> d \<noteq> dir \<Longrightarrow> fs' d = fs d"
  by (auto simp: unlink_def split: option.splits if_splits)

lemma deleteFiles_disk_other: "d \<noteq> dir \<Longrightarrow> disk (deleteFiles dir bs s) d = disk s d"
proof (induction bs arbitrary: s)
  case Nil
  show ?case by simp
next
  case (Cons b rest)
  show ?case
    by (simp add: Cons.IH [OF Cons.prems] logConsole_def unlink_other [OF _ Cons.prems]
        split: option.splits)
qed

lemma cleanDirectory_disk_other: "d \<noteq> dir \<Longrightarrow> disk (cleanDirectory dir n s) d = disk s d"
  by (simp add: cleanDirectory_def deleteFiles_disk_other logConsole_def split: option.splits)

subsection \<open>Rounding to doubles\<close>

lemma roundTiesToEven_near: "\<bar>of_int (roundTiesToEven y) - y\<bar> \<le> 1 / 2"
proof -
  have "of_int \<lfloor>y\<rfloor> \<le> y" "y < of_int \<lfloor>y\<rfloor> + 1" by linarith+
  then show ?thesis
    by (auto simp: roundTiesToEven_def Let_def)
qed

lemma roundTiesToEven_grid:
  assumes "0 \<le> f" "f < 1 / 2"
  shows "roundTiesToEven (of_int k + f) = k"
proof -
  have "\<lfloor>of_int k + f\<rfloor> = k"
    using assms by (simp add: floor_unique)
  then show ?thesis
    using assms by (simp add: roundTiesToEven_def Let_def)
qed

lemma ulp_pos: "0 < ulp x"
  by (simp add: ulp_def)

lemma toDouble_zero: "toDouble 0 = 0"
  by (simp add: toDouble_def)

lemma toDouble_near:
  assumes "0 < x"
  shows "\<bar>toDouble x - x\<bar> \<le> ulp x / 2"
proof -
  let ?u = "ulp x"
  let ?r = "of_int (roundTiesToEven (x / ?u)) :: real"
  have u: "0 < ?u" by (rule ulp_pos)
  have "\<bar>?r - x / ?u\<bar> \<le> 1 / 2" by (rule roundTiesToEven_near)
  then have "?u * \<bar>?r - x / ?u\<bar> \<le> ?u * (1 / 2)"
    using u by (simp only: mult_le_cancel_left_pos)
  moreover have "?u * \<bar>?r - x / ?u\<bar> = \<bar>?u * ?r - x\<bar>"
  proof -
    have "?u * \<bar>?r - x / ?u\<bar> = \<bar>?u * (?r - x / ?u)\<bar>"
      using u by (simp add: abs_mult)
    also have "?u * (?r - x / ?u) = ?u * ?r - x"
      using u by (simp add: right_diff_distrib)
    finally show ?thesis .
  qed
  ultimately show ?thesis
    using assms by (simp add: toDouble_def)
qed

lemma ulp_small:
  assumes "0 < x" "x < 2 ^ 53"
  shows "ulp x \<le> 1"
proof -
  have "x < 2 powr 53"
    using assms(2) by (simp only: powr_numeral zero_le_numeral)
  then have "log 2 x < 53"
    using assms(1) by (simp only: log_less_iff)
  then have "\<lfloor>log 2 x\<rfloor> \<le> 52" by linarith
  then have "2 powr of_int (\<lfloor>log 2 x\<rfloor> - 52) \<le> 2 powr (0::real)"
    by (intro powr_mono) simp_all
  then show ?thesis
    using assms by (simp add: ulp_def)
qed

lemma toDouble_below:
  assumes "0 < x" "x < 2 ^ 53"
  shows "x - 1 / 2 \<le> toDouble x"
  using toDouble_near [OF assms(1)] ulp_small [OF assms] by linarith

lemma toDouble_grid:
  assumes "0 < x" and "x / ulp x = of_int k + f" and "0 \<le> f" and "f < 1 / 2"
  shows "toDouble x = ulp x * of_int k"
  using assms by (simp add: toDouble_def roundTiesToEven_grid)

lemma ulp_binade:
  assumes "2 powr of_int n \<le> x" "x < 2 powr of_int (n + 1)"
  shows "ulp x = 2 powr of_int (n - 52)"
proof -
  have x: "0 < x" using assms(1) powr_gt_zero [of 2 "of_int n"] by linarith
  have "\<lfloor>log 2 x\<rfloor> = n"
    using assms x by (simp add: floor_log_eq_powr_iff)
  then show ?thesis using x by (simp add: ulp_def)
qed

lemma toDouble_representable:
  assumes m: "0 < m" "m < 2 ^ 53"
  shows "toDouble (of_int m * 2 powr of_int k) = of_int m * 2 powr of_int k"
proof -
  let ?x = "of_int m * 2 powr of_int k :: real"
  define e where "e = \<lfloor>log 2 (of_int m)\<rfloor>"
  have mpos: "(0::real) < of_int m" using m by simp
  have x: "0 < ?x" using mpos by simp
  have "(of_int m :: real) < 2 ^ 53"
    using m(2) by (metis of_int_less_iff of_int_numeral of_int_power)
  then have "(of_int m :: real) < 2 powr 53"
    by (simp only: powr_numeral zero_le_numeral)
  then have "log 2 (of_int m) < 53"
    using mpos by (simp only: log_less_iff)
  then have e_le: "e \<le> 52" unfolding e_def by linarith
  have "log 2 ?x = log 2 (of_int m) + of_int k"
    using mpos by (simp add: log_mult)
  then have "\<lfloor>log 2 ?x\<rfloor> = e + k"
    by (simp add: e_def)
  then have u: "ulp ?x = 2 powr of_int (e + k - 52)"
    using x by (simp add: ulp_def)
  define U where "U = (2::real) powr of_int (e + k - 52)"
  define K where "K = m * 2 ^ nat (52 - e)"
  have U: "0 < U" by (simp add: U_def)
  have "(2::real) powr of_int k = U * 2 powr of_int (52 - e)"
    by (simp add: U_def powr_add [symmetric])
  moreover have "(2::real) powr of_int (52 - e) = 2 ^ nat (52 - e)"
    using e_le by (simp add: powr_realpow [symmetric])
  ultimately have pk: "(2::real) powr of_int k = U * 2 ^ nat (52 - e)"
    by simp
  have split: "?x = U * of_int K"
    by (simp only: pk K_def of_int_mult of_int_power of_int_numeral) simp
  have "?x / U = of_int K + 0"
    using U by (simp only: split) simp
  then have "?x / ulp ?x = of_int K + 0"
    by (simp only: u U_def)
  then have "toDouble ?x = ulp ?x * of_int K"
    by (rule toDouble_grid [OF x]) simp_all
  then have "toDouble ?x = U * of_int K"
    by (simp only: u U_def)
  with split show ?thesis by simp
qed

lemma toDouble_int:
  assumes "x \<in> \<int>" "0 \<le> x" "x < 2 ^ 53"
  shows "toDouble x = x"
proof (cases "x = 0")
  case True
  then show ?thesis by (simp add: toDouble_zero)
next
  case False
  from assms(1) obtain m where m: "x = of_int m" by (auto elim: Ints_cases)
  have "0 < m" "m < 2 ^ 53"
    using assms False m by simp_all
  from toDouble_representable [OF this, of 0] show ?thesis
    by (simp add: m)
qed

lemma toDouble_numeral [simp]:
  "numeral n < (2::real) ^ 53 \<Longrightarrow> toDouble (numeral n) = numeral n"
  by (rule toDouble_int) simp_all

lemma toDouble_one [simp]: "toDouble 1 = 1"
  by (rule toDouble_int) simp_all


lemma toDouble_above:
  assumes "0 < x" "x < 2 ^ 53"
  shows "toDouble x \<le> x + 1 / 2"
  using toDouble_near [OF assms(1)] ulp_small [OF assms] by linarith

lemma toDouble_dyadic:
  assumes "0 < m" "m < 2 ^ 53"
  shows "toDouble (of_int m / 2 ^ j) = of_int m / 2 ^ j"
proof -
  have "(2::real) powr of_int (- int j) = 1 / 2 ^ j"
    by (simp add: powr_minus powr_realpow divide_simps)
  with toDouble_representable [OF assms, of "- int j"] show ?thesis
    by simp
qed

lemma toDouble_absorb:
  assumes n: "n \<le> 52" and lo: "2 ^ n \<le> y" and hi: "y + d < 2 ^ (n + 1)"
    and grid: "y * 2 ^ (52 - n) = of_int k" and d: "0 \<le> d" "d * 2 ^ (52 - n) < 1 / 2"
  shows "toDouble (y + d) = y"
proof -
  define x where "x = y + d"
  define P where "P = (2::real) ^ (52 - n)"
  have P: "0 < P" by (simp add: P_def)
  have "(0::real) < 2 ^ n" by simp
  then have x: "0 < x"
    using lo d(1) unfolding x_def by linarith
  have p1: "(2::real) powr of_int (int n) = 2 ^ n"
    by (simp add: powr_realpow)
  have p2: "(2::real) powr of_int (int n + 1) = 2 ^ (n + 1)"
    using powr_realpow [of 2 "n + 1"] by (simp add: add.commute)
  have b1: "2 powr of_int (int n) \<le> x"
    unfolding p1 x_def using lo d(1) by linarith
  have b2: "x < 2 powr of_int (int n + 1)"
    unfolding p2 x_def using hi by linarith
  have e: "real_of_int (int n - 52) = - real (52 - n)"
    using n by (simp add: of_nat_diff)
  have "(2::real) powr of_int (int n - 52) = 2 powr (- real (52 - n))"
    by (simp only: e)
  also have "\<dots> = 1 / P"
    unfolding P_def by (simp only: powr_minus powr_realpow zero_less_numeral inverse_eq_divide)
  finally have "(2::real) powr of_int (int n - 52) = 1 / P" .
  then have u: "ulp x = 1 / P"
    using ulp_binade [OF b1 b2] by simp
  have "x / ulp x = x * P"
    by (simp add: u)
  also have "\<dots> = y * P + d * P"
    unfolding x_def by (rule distrib_right)
  also have "y * P = of_int k"
    unfolding P_def by (rule grid)
  finally have q: "x / ulp x = of_int k + d * P" .
  have f: "0 \<le> d * P" "d * P < 1 / 2"
    using d(1) P d(2) unfolding P_def by (simp_all only: mult_nonneg_nonneg less_imp_le)
  have "toDouble x = ulp x * of_int k"
    by (rule toDouble_grid [OF x q f])
  also have "of_int k = y * P"
    unfolding P_def by (rule grid [symmetric])
  also have "ulp x * (y * P) = y"
    using P by (simp add: u)
  finally show ?thesis
    unfolding x_def .
qed


subsection \<open>Scheduling\<close>

text \<open>
  C5, as the code has it. Let the interval, in milliseconds as the code computes it, be
  at least 1, and let the clock readings be non-negative, not go backwards and stay
  below \<open>2 ^ 53\<close> with the interval added. Then the next-due time set by
  \<^verbatim>\<open>scheduleNextBackup\<close> lies strictly after the reading it was compared with; when last
  backup plus interval is not after that reading, the next-due time is the latest
  reading plus the interval, rounded to a double, it lies after the latest reading too,
  and it is exactly that sum when the sum is a whole number of milliseconds.
\<close>

theorem scheduleNextBackup_future:
  assumes "1 \<le> intervalMs s" and "0 \<le> t3" and "t3 + intervalMs s < 2 ^ 53" and "t2 \<le> t3"
  shows "t2 < nextBackupTime (scheduleNextBackup t1 t2 t3 s)
     \<and> (toDouble ((if lastBackupTime (settings s) = 0 then t1 else lastBackupTime (settings s))
                   + intervalMs s) \<le> t2
          \<longrightarrow> nextBackupTime (scheduleNextBackup t1 t2 t3 s) = toDouble (t3 + intervalMs s)
              \<and> t3 < nextBackupTime (scheduleNextBackup t1 t2 t3 s)
              \<and> (t3 + intervalMs s \<in> \<int> \<longrightarrow>
                   nextBackupTime (scheduleNextBackup t1 t2 t3 s) = t3 + intervalMs s))"
proof -
  have pos: "0 < t3 + intervalMs s" using assms(1,2) by linarith
  have "t3 + intervalMs s - 1 / 2 \<le> toDouble (t3 + intervalMs s)"
    by (rule toDouble_below [OF pos assms(3)])
  then have later: "t3 < toDouble (t3 + intervalMs s)"
    using assms(1) by linarith
  have exact: "t3 + intervalMs s \<in> \<int> \<Longrightarrow> toDouble (t3 + intervalMs s) = t3 + intervalMs s"
    using pos assms(3) by (intro toDouble_int) simp_all
  show ?thesis
    using later exact assms(4) by (simp add: scheduleNextBackup_def Let_def)
qed

text \<open>
  The scenario of the specification: an interval of one hour, the last backup two hours
  before \<open>now = 10000000\<close>; the next-due time is \<open>now\<close> plus one hour.
\<close>

theorem scheduleNextBackup_future_witness:
  "1 \<le> intervalMs demo_state \<and> (0::real) \<le> 10000000
   \<and> 10000000 + intervalMs demo_state < 2 ^ 53 \<and> (10000000::real) \<le> 10000000
   \<and> autoBackupInterval (settings demo_state) = 1
   \<and> lastBackupTime (settings demo_state) = 10000000 - 2 * 3600000
   \<and> nextBackupTime (scheduleNextBackup 10000000 10000000 10000000 demo_state) = 10000000 + 3600000
   \<and> 10000000 < nextBackupTime (scheduleNextBackup 10000000 10000000 10000000 demo_state)"
proof -
  have i: "intervalMs demo_state = 3600000"
    by (simp add: demo_defs intervalMs_def)
  have h1: "1 \<le> intervalMs demo_state" and h3: "10000000 + intervalMs demo_state < 2 ^ 53"
    by (simp_all add: i)
  have h2: "(0::real) \<le> 10000000" and h4: "(10000000::real) \<le> 10000000"
    by simp_all
  have l: "lastBackupTime (settings demo_state) = 2800000" "autoBackupInterval (settings demo_state) = 1"
    by (simp_all add: demo_defs)
  show ?thesis
    using h1 h3 scheduleNextBackup_future [OF h1 h2 h3 h4, of 10000000]
    by (simp add: i l)
qed

lemma intervalMs_tiny: "intervalMs tiny_state = 28125 / 2 ^ 33"
proof -
  have a: "toDouble (1 / 2 ^ 40 * 60) = 15 / 2 ^ 38"
    using toDouble_dyadic [of 15 38] by simp
  have b: "toDouble (15 / 2 ^ 38 * 60) = 225 / 2 ^ 36"
    using toDouble_dyadic [of 225 36] by simp
  have c: "toDouble (225 / 2 ^ 36 * 1000) = 28125 / 2 ^ 33"
    using toDouble_dyadic [of 28125 33] by simp
  have "autoBackupInterval (settings tiny_state) = 1 / 2 ^ 40"
    by (simp add: tiny_state_def)
  then show ?thesis
    by (simp only: intervalMs_def a b c)
qed

lemma absorbed: "toDouble (1700000000000 + 28125 / 2 ^ 33) = 1700000000000"
  by (rule toDouble_absorb [where n = 40 and k = "1700000000000 * 4096"]) simp_all

text \<open>
  C5 as stated fails for a positive interval below half the distance between
  neighbouring doubles at the current time: the sum of the current time and the
  interval rounds to the current time, and the next-due time is not after it.
\<close>

theorem scheduleNextBackup_tiny_interval:
  "0 < autoBackupInterval (settings tiny_state)
   \<and> nextBackupTime (scheduleNextBackup 1700000000000 1700000000000 1700000000000 tiny_state)
       = 1700000000000"
proof -
  have "0 < autoBackupInterval (settings tiny_state)"
    by (simp add: tiny_state_def demo_defs)
  moreover have "lastBackupTime (settings tiny_state) = 0"
    by (simp add: tiny_state_def demo_defs)
  moreover have "toDouble (1700000000000 + intervalMs tiny_state) = 1700000000000"
    by (simp only: intervalMs_tiny absorbed)
  ultimately show ?thesis
    by (simp add: scheduleNextBackup_def Let_def)
qed

subsection \<open>Retention\<close>

lemmas eval_defs = cleanOldBackups_def cleanDirectory_def Let_def secondaryConfigured_def trim_def
      isWhiteSpace_def isZip_def endsWith_def sortNewestFirst_def slice_from_def unlink_def logConsole_def

text \<open>
  C10. When the primary keep-count is not positive, \<^verbatim>\<open>cleanOldBackups\<close> changes
  nothing, whatever the secondary keep-count is. A directory whose listing it changes
  is the primary directory or, with a secondary path configured, the secondary one, and
  the primary keep-count is positive then. With a positive primary keep-count it prunes
  the primary directory with the primary keep-count and then, if a secondary path is
  configured, the secondary directory with the secondary keep-count.
\<close>

theorem cleanOldBackups_primary_gate:
  "(maxBackupCount (settings s) \<le> 0 \<longrightarrow> cleanOldBackups a s = s)
   \<and> (\<forall>d. disk (cleanOldBackups a s) d \<noteq> disk s d \<longrightarrow>
          0 < maxBackupCount (settings s) \<and>
          (d = (if backupPath (settings s) \<noteq> [] then backupPath (settings s) else a)
           \<or> secondaryConfigured (settings s) \<and> d = secondaryBackupPath (settings s)))
   \<and> (0 < maxBackupCount (settings s) \<and> secondaryConfigured (settings s) \<longrightarrow>
        cleanOldBackups a s =
          cleanDirectory (secondaryBackupPath (settings s)) (secondaryMaxBackupCount (settings s))
            (cleanDirectory (if backupPath (settings s) \<noteq> [] then backupPath (settings s) else a)
               (maxBackupCount (settings s)) s))
   \<and> (0 < maxBackupCount (settings s) \<and> \<not> secondaryConfigured (settings s) \<longrightarrow>
        cleanOldBackups a s =
          cleanDirectory (if backupPath (settings s) \<noteq> [] then backupPath (settings s) else a)
            (maxBackupCount (settings s)) s)"
proof (intro conjI)
  show "maxBackupCount (settings s) \<le> 0 \<longrightarrow> cleanOldBackups a s = s"
    by (simp add: cleanOldBackups_def)
next
  let ?p = "if backupPath (settings s) \<noteq> [] then backupPath (settings s) else a"
  show "\<forall>d. disk (cleanOldBackups a s) d \<noteq> disk s d \<longrightarrow>
          0 < maxBackupCount (settings s) \<and>
          (d = ?p \<or> secondaryConfigured (settings s) \<and> d = secondaryBackupPath (settings s))"
  proof (intro allI impI)
  fix d
  assume changed: "disk (cleanOldBackups a s) d \<noteq> disk s d"
  let ?p = "if backupPath (settings s) \<noteq> [] then backupPath (settings s) else a"
  have pos: "0 < maxBackupCount (settings s)"
  proof (rule ccontr)
    assume "\<not> 0 < maxBackupCount (settings s)"
    then have "cleanOldBackups a s = s" by (simp add: cleanOldBackups_def)
    with changed show False by simp
  qed
  have where_: "d = ?p \<or> secondaryConfigured (settings s) \<and> d = secondaryBackupPath (settings s)"
  proof (rule ccontr)
    assume neg: "\<not> (d = ?p \<or> secondaryConfigured (settings s) \<and> d = secondaryBackupPath (settings s))"
    then have d1: "d \<noteq> ?p" by simp
    have "disk (cleanOldBackups a s) d = disk s d"
    proof (cases "secondaryConfigured (settings s)")
      case True
      with neg have d2: "d \<noteq> secondaryBackupPath (settings s)" by simp
      show ?thesis
        using pos True
        by (simp add: cleanOldBackups_def Let_def cleanDirectory_settings
            cleanDirectory_disk_other [OF d2] cleanDirectory_disk_other [OF d1])
    next
      case False
      show ?thesis
        using pos False
        by (simp add: cleanOldBackups_def Let_def cleanDirectory_settings
            cleanDirectory_disk_other [OF d1])
    qed
    with changed show False by simp
  qed
  show "0 < maxBackupCount (settings s) \<and>
          (d = ?p \<or> secondaryConfigured (settings s) \<and> d = secondaryBackupPath (settings s))"
    using pos where_ by simp
  qed
next
  show "0 < maxBackupCount (settings s) \<and> secondaryConfigured (settings s) \<longrightarrow> cleanOldBackups a s =
          cleanDirectory (secondaryBackupPath (settings s)) (secondaryMaxBackupCount (settings s))
            (cleanDirectory (if backupPath (settings s) \<noteq> [] then backupPath (settings s) else a)
               (maxBackupCount (settings s)) s)"
    by (simp add: cleanOldBackups_def Let_def cleanDirectory_settings)
next
  show "0 < maxBackupCount (settings s) \<and> \<not> secondaryConfigured (settings s) \<longrightarrow> cleanOldBackups a s =
          cleanDirectory (if backupPath (settings s) \<noteq> [] then backupPath (settings s) else a)
            (maxBackupCount (settings s)) s"
    by (simp add: cleanOldBackups_def Let_def cleanDirectory_settings)
qed

text \<open>
  With the primary keep-count 0 and the secondary keep-count 1 nothing is pruned, though
  the secondary directory holds two archives; with the primary keep-count 2 the
  secondary directory is pruned to one archive.
\<close>

theorem cleanOldBackups_primary_gate_witness:
  "maxBackupCount (settings gate_state) \<le> 0 \<and> 0 < secondaryMaxBackupCount (settings gate_state)
   \<and> secondaryConfigured (settings gate_state)
   \<and> cleanOldBackups ''/vault'' gate_state = gate_state
   \<and> 0 < maxBackupCount (settings (gate_state\<lparr>settings := demo_settings\<lparr>secondaryMaxBackupCount := 1\<rparr>\<rparr>))
   \<and> disk (cleanOldBackups ''/vault'' (gate_state\<lparr>settings := demo_settings\<lparr>secondaryMaxBackupCount := 1\<rparr>\<rparr>)) ''/mirror''
       = Some [\<lparr>fname = ''b.zip'', mtime = Some 3, undeletable = False\<rparr>]"
proof -
  have off: "maxBackupCount (settings gate_state) \<le> 0"
    by (simp add: gate_state_def demo_defs)
  have same: "cleanOldBackups ''/vault'' gate_state = gate_state"
    using cleanOldBackups_primary_gate [of gate_state "''/vault''"] off by blast
  show ?thesis
    using off same
    by (simp add: gate_state_def demo_defs eval_defs)
qed

text \<open>
  C2. The keep-count 0 is a no-op only as the primary keep-count. With a positive
  primary keep-count and the secondary keep-count 0, \<^verbatim>\<open>cleanDirectory\<close> is called with 0
  on the secondary directory, \<^verbatim>\<open>slice(0)\<close> selects every archive, and all of them are
  deleted; a whole run of \<^verbatim>\<open>createBackup\<close> copies the new archive into the secondary
  directory and then deletes it with the others.
\<close>

theorem cleanOldBackups_secondary_zero_deletes_all:
  "0 < maxBackupCount (settings demo_state) \<and> secondaryMaxBackupCount (settings demo_state) = 0
   \<and> disk demo_state ''/mirror''
       = Some [\<lparr>fname = ''a.zip'', mtime = Some 1, undeletable = False\<rparr>,
               \<lparr>fname = ''b.zip'', mtime = Some 3, undeletable = False\<rparr>]
   \<and> disk (cleanDirectory ''/mirror'' 0 demo_state) ''/mirror'' = Some []
   \<and> disk (cleanOldBackups ''/vault'' demo_state) ''/mirror'' = Some []
   \<and> ((''/mirror'', ''2024-01-02T03-04-05_V.zip''), [(''note.md'', ''hello'')])
         \<in> set (archives (createBackup demo_env demo_state))
   \<and> disk (createBackup demo_env demo_state) ''/mirror'' = Some []"
  by (simp add: demo_defs eval_defs createBackup_def createBackup_begin_def createBackup_rest_def
      createBackup_try_def addObsidianFolder_def ensureBackupDir_def getBackupPath_def putFile_def
      writeZip_def copyToSecondary_def saveSettings_def zipName_def timestamp_def
      slice_0_minus5_def isAbsolute_def notify_def join_def)

subsection \<open>createBackup: the path check and the in-progress flag\<close>

lemmas run_defs = createBackup_def createBackup_begin_def createBackup_rest_def createBackup_try_def
  addObsidianFolder_def ensureBackupDir_def getBackupPath_def putFile_def writeZip_def
  copyToSecondary_def saveSettings_def zipName_def timestamp_def slice_0_minus5_def isAbsolute_def
  notify_def join_def

lemma busy_state_eq:
  "busy_state = demo_state\<lparr>isBackupInProgress := True, notices := [StartingBackup], running := [Ticked]\<rparr>"
  by (simp add: busy_state_def checkAndRunBackup_def isBackingUp_def createBackup_begin_def
      notify_def demo_defs trim_def isWhiteSpace_def)

lemma rejected_state_eq:
  "rejected_state = demo_state\<lparr>settings := demo_settings\<lparr>backupPath := ''  ''\<rparr>,
     isBackupInProgress := True, notices := [StartingBackup], running := [Ticked]\<rparr>"
  by (simp add: rejected_state_def busy_state_eq)

lemma reachable_demo_state: "reachable demo_state"
  by (rule reachable.idle) (simp_all add: demo_defs)

lemma reachable_busy_state: "reachable busy_state"
  unfolding busy_state_def by (rule reachable.tick [OF reachable_demo_state])

lemma reachable_rejected_state: "reachable rejected_state"
  unfolding rejected_state_def by (rule reachable.edit [OF reachable_busy_state])

text \<open>
  C3. With the primary path empty or blank, \<^verbatim>\<open>createBackup\<close> shows the notice
  "No primary backup path set" and returns the state otherwise as it was: the settings
  with \<^verbatim>\<open>lastBackupTime\<close>, the in-progress flag, the saved settings, the disk and the list
  of written archives are unchanged.
\<close>

theorem createBackup_blank_path:
  assumes "backupPath (settings s) = [] \<or> trim (backupPath (settings s)) = []"
  shows "createBackup env s = s\<lparr>notices := notices s @ [NoPrimaryPath]\<rparr>"
  using assms by (simp add: createBackup_def createBackup_begin_def notify_def)

theorem createBackup_blank_path_witness:
  "trim (backupPath (settings (demo_state\<lparr>settings := demo_settings\<lparr>backupPath := ''  ''\<rparr>\<rparr>))) = []
   \<and> createBackup demo_env (demo_state\<lparr>settings := demo_settings\<lparr>backupPath := ''  ''\<rparr>\<rparr>)
       = demo_state\<lparr>settings := demo_settings\<lparr>backupPath := ''  ''\<rparr>, notices := [NoPrimaryPath]\<rparr>"
proof -
  have blank: "trim (backupPath (settings (demo_state\<lparr>settings := demo_settings\<lparr>backupPath := ''  ''\<rparr>\<rparr>))) = []"
    by (simp add: trim_def isWhiteSpace_def)
  show ?thesis
    using blank createBackup_blank_path [OF disjI2 [OF blank], of demo_env]
    by (simp add: demo_state_def)
qed

lemma createBackup_rest_clears: "\<not> isBackupInProgress (createBackup_rest env s)"
  by (simp add: createBackup_rest_def logConsole_def notify_def split: sum.splits prod.splits)

lemma scheduleNextBackup_flag:
  "isBackupInProgress (scheduleNextBackup t1 t2 t3 s) = isBackupInProgress s"
  "running (scheduleNextBackup t1 t2 t3 s) = running s"
  by (simp_all add: scheduleNextBackup_def Let_def)

lemma reachable_flag: "reachable s \<Longrightarrow> isBackupInProgress s \<Longrightarrow> running s \<noteq> []"
proof (induction rule: reachable.induct)
  case (idle s)
  then show ?case by simp
next
  case (force s t1 t2 t3)
  then show ?case
    by (simp add: forceBackupNow_def createBackup_begin_def scheduleNextBackup_flag notify_def
        split: if_splits)
next
  case (tick s now t1 t2 t3)
  then show ?case
    by (simp add: checkAndRunBackup_def createBackup_begin_def scheduleNextBackup_flag notify_def
        isBackingUp_def split: if_splits)
next
  case (finish s i env t1 t2 t3)
  then show ?case
    by (simp add: finishRun_def Let_def scheduleNextBackup_flag createBackup_rest_clears
        split: if_splits)
next
  case (edit s st)
  then show ?case by simp
next
  case (reschedule s now)
  then show ?case by (simp add: rescheduleFromNow_def)
qed

text \<open>
  C7, as the code has it. After \<^verbatim>\<open>createBackup\<close> the in-progress flag is set exactly
  when the call was rejected at the path check and the flag was set before: a call that
  passes the path check ends with the flag cleared, by success or by failure, and a call
  rejected at the path check leaves the flag as it found it. A resumed run ends with the
  flag cleared. So in every state the plugin can reach, the flag is clear whenever no
  run is suspended: no later run is blocked for good.
\<close>

theorem createBackup_flag_after:
  "(isBackupInProgress (createBackup env s) \<longleftrightarrow>
      (backupPath (settings s) = [] \<or> trim (backupPath (settings s)) = []) \<and> isBackupInProgress s)
   \<and> \<not> isBackupInProgress (createBackup_rest env s)
   \<and> (reachable s \<and> running s = [] \<longrightarrow> \<not> isBackupInProgress s)"
  using reachable_flag [of s]
  by (auto simp add: createBackup_def createBackup_begin_def createBackup_rest_clears notify_def)

text \<open>
  A full run from the idle state ends with the flag cleared; and after a tick has started
  a run and that run has come to its end, no run is suspended and the flag is clear.
\<close>

theorem createBackup_flag_after_witness:
  "backupPath (settings demo_state) \<noteq> [] \<and> trim (backupPath (settings demo_state)) \<noteq> []
   \<and> isBackupInProgress (createBackup demo_env demo_state) = False
   \<and> reachable (finishRun 0 demo_env 30000000 30000000 30000000
        (checkAndRunBackup 20000000 20000000 20000000 20000000 demo_state))
   \<and> running (finishRun 0 demo_env 30000000 30000000 30000000
        (checkAndRunBackup 20000000 20000000 20000000 20000000 demo_state)) = []
   \<and> isBackupInProgress (finishRun 0 demo_env 30000000 30000000 30000000
        (checkAndRunBackup 20000000 20000000 20000000 20000000 demo_state)) = False"
proof -
  let ?ticked = "checkAndRunBackup 20000000 20000000 20000000 20000000 demo_state"
  let ?done = "finishRun 0 demo_env 30000000 30000000 30000000 ?ticked"
  have ticked: "?ticked = demo_state\<lparr>isBackupInProgress := True, notices := [StartingBackup], running := [Ticked]\<rparr>"
    using busy_state_eq by (simp add: busy_state_def)
  have r1: "reachable ?done"
    by (rule reachable.finish [OF reachable.tick [OF reachable_demo_state]]) (simp add: ticked)
  have none: "running ?done = []"
    unfolding ticked
    by (simp add: finishRun_def scheduleNextBackup_def demo_defs run_defs eval_defs)
  show ?thesis
    using r1 none createBackup_flag_after [of demo_env demo_state] createBackup_flag_after [of demo_env ?done]
    by (simp add: demo_defs trim_def isWhiteSpace_def)
qed


text \<open>
  C7 as stated fails in a state the plugin can reach: a run is suspended, the primary
  path has been blanked, and \<^verbatim>\<open>createBackup\<close> is called again. The call returns before
  the \<^verbatim>\<open>try\<close> block and the flag is still set.
\<close>

theorem createBackup_rejected_keeps_flag:
  "reachable rejected_state \<and> isBackupInProgress rejected_state
   \<and> isBackupInProgress (createBackup demo_env rejected_state)"
  using reachable_rejected_state
  by (simp add: rejected_state_eq demo_defs createBackup_def createBackup_begin_def notify_def
      trim_def isWhiteSpace_def)

subsection \<open>Mutual exclusion\<close>




subsection \<open>createBackup: a failing write\<close>




lemma untouched_log: "untouched s (logConsole m s)"
  by (simp add: untouched_def logConsole_def)

lemma logAll_eq: "logAll ms s = s\<lparr>console := console s @ ms\<rparr>"
  by (induction ms arbitrary: s) (simp_all add: logConsole_def)

lemma untouched_logAll: "untouched s (logAll ms s)"
  by (simp add: logAll_eq untouched_def)





lemma addVaultFiles_success:
  "list_all (\<lambda>f. case snd f of Inl _ \<Rightarrow> False | Inr _ \<Rightarrow> True) fs \<Longrightarrow>
   addVaultFiles fs k n z s = Inr (z @ vaultEntries fs, s\<lparr>notices := notices s @ progressNotices k n fs\<rparr>)"
proof (induction fs k n z s rule: addVaultFiles.induct)
  case (1 k n z s)
  show ?case by simp
next
  case (2 path message rest k n z s)
  then show ?case by simp
next
  case (3 path content rest k n z s)
  then show ?case by (simp add: notify_def)
qed








subsection \<open>The traversal of the metadata tree\<close>

lemma addChildren_append:
  "addChildren (xs @ ys) z = addChildren xs z @ addChildren ys z"
proof (induction xs)
  case Nil
  show ?case by simp
next
  case (Cons a xs)
  then show ?case by (cases a) simp
qed

lemma zipEntries_append: "zipEntries (es @ fs) = zipEntries es @ zipEntries fs"
  by (induction es rule: zipEntries.induct) simp_all

lemma consoleMsgs_append: "consoleMsgs (es @ fs) = consoleMsgs es @ consoleMsgs fs"
  by (induction es rule: consoleMsgs.induct) simp_all

subsection \<open>createBackup: a run in which nothing throws\<close>

lemma addObsidianFolder_listed:
  "obsidianFolder env = Some files \<Longrightarrow>
   addObsidianFolder env z s =
     (z @ zipEntries (addChildren files ''.obsidian''),
      s\<lparr>notices := notices s @ [VerifyingBackup],
        console := console s @ consoleMsgs (addChildren files ''.obsidian'')\<rparr>)"
  by (simp add: addObsidianFolder_def Let_def logAll_eq notify_def)

lemma ensureBackupDir_ok:
  "mkdirSucceeds env \<Longrightarrow>
   \<exists>s'. ensureBackupDir env path s = Inr s' \<and> settings s' = settings s \<and> notices s' = notices s
     \<and> archives s' = archives s \<and> console s' = console s"
  by (cases "mkdirError env") (auto simp: ensureBackupDir_def mkdirSucceeds_def)

lemma copyToSecondary_settings: "settings (copyToSecondary env z s) = settings s"
  by (simp add: copyToSecondary_def notify_def logConsole_def)

lemma copyToSecondary_notices:
  "notices (copyToSecondary env z s) = notices s
   \<or> notices (copyToSecondary env z s) = notices s @ [SecondaryMissing]"
  by (simp add: copyToSecondary_def notify_def logConsole_def)

lemma copyToSecondary_archives: "e \<in> set (archives s) \<Longrightarrow> e \<in> set (archives (copyToSecondary env z s))"
  by (simp add: copyToSecondary_def notify_def logConsole_def)

lemma copyToSecondary_console: "m \<in> set (console s) \<Longrightarrow> m \<in> set (console (copyToSecondary env z s))"
  by (simp add: copyToSecondary_def notify_def logConsole_def)

lemma cleanOldBackups_frame: "onlyDiskConsole s (cleanOldBackups a s)"
  by (simp add: cleanOldBackups_def Let_def cleanDirectory_settings onlyDiskConsole_refl
      onlyDiskConsole_trans [OF cleanDirectory_frame cleanDirectory_frame] cleanDirectory_frame)

lemma deleteFiles_console: "m \<in> set (console s) \<Longrightarrow> m \<in> set (console (deleteFiles dir bs s))"
proof (induction bs arbitrary: s)
  case Nil
  then show ?case by simp
next
  case (Cons b rest)
  show ?case
    unfolding deleteFiles.simps
    by (rule Cons.IH) (use Cons.prems in \<open>simp add: logConsole_def split: option.splits\<close>)
qed

lemma cleanDirectory_console: "m \<in> set (console s) \<Longrightarrow> m \<in> set (console (cleanDirectory dir n s))"
  by (simp add: cleanDirectory_def deleteFiles_console logConsole_def split: option.splits)

lemma cleanOldBackups_console: "m \<in> set (console s) \<Longrightarrow> m \<in> set (console (cleanOldBackups a s))"
  by (simp add: cleanOldBackups_def Let_def cleanDirectory_console)


lemma cleanOldBackups_notices: "notices (cleanOldBackups a s) = notices s"
  using cleanOldBackups_frame [of s a] by (simp add: onlyDiskConsole_def)

lemma cleanOldBackups_archives: "archives (cleanOldBackups a s) = archives s"
  using cleanOldBackups_frame [of s a] by (simp add: onlyDiskConsole_def)

lemma cleanOldBackups_settings: "settings (cleanOldBackups a s) = settings s"
  using cleanOldBackups_frame [of s a] by (simp add: onlyDiskConsole_def)

lemma progressNotices_only: "n \<in> set (progressNotices k t fs) \<Longrightarrow> \<exists>p. n = AddingFiles p"
  by (induction fs arbitrary: k) auto

lemma createBackup_succeeds:
  assumes path: "backupPath (settings s) \<noteq> []" "trim (backupPath (settings s)) \<noteq> []"
    and tree: "obsidianFolder env = Some files"
    and ok: "readsSucceed env" "mkdirSucceeds env" "writeZipOutcome env = Written" "saveDataError env = None"
  shows "\<exists>s5. createBackup env s =
           (notify BackupCreated (cleanOldBackups (adapterBackupPath env)
              (s5\<lparr>settings := (settings s)\<lparr>lastBackupTime := nowAfterCopy env\<rparr>,
                  savedData := (settings s)\<lparr>lastBackupTime := nowAfterCopy env\<rparr>\<rparr>)))\<lparr>isBackupInProgress := False\<rparr>
         \<and> (getBackupPath env s (zipName env),
              vaultEntries (vaultFiles env) @ zipEntries (addChildren files ''.obsidian'')) \<in> set (archives s5)
         \<and> (\<forall>m \<in> set (consoleMsgs (addChildren files ''.obsidian'')). m \<in> set (console s5))
         \<and> (\<exists>extra. notices s5 = notices s @ StartingBackup #
                 progressNotices 0 (length (vaultFiles env)) (vaultFiles env) @ VerifyingBackup # extra
               \<and> set extra \<subseteq> {SecondaryMissing})"
proof -
  define s0 where "s0 = notify StartingBackup (s\<lparr>isBackupInProgress := True\<rparr>)"
  define s1 where "s1 = s0\<lparr>notices := notices s0 @ progressNotices 0 (length (vaultFiles env)) (vaultFiles env)\<rparr>"
  define z where "z = vaultEntries (vaultFiles env) @ zipEntries (addChildren files ''.obsidian'')"
  define s2 where "s2 = s1\<lparr>notices := notices s1 @ [VerifyingBackup],
        console := console s1 @ consoleMsgs (addChildren files ''.obsidian'')\<rparr>"
  have A: "addVaultFiles (vaultFiles env) 0 (length (vaultFiles env)) [] s0 = Inr (vaultEntries (vaultFiles env), s1)"
    using ok(1) by (simp add: readsSucceed_def addVaultFiles_success s1_def)
  have B: "addObsidianFolder env (vaultEntries (vaultFiles env)) s1 = (z, s2)"
    by (simp add: addObsidianFolder_listed [OF tree] z_def s2_def)
  have set2: "settings s2 = settings s"
    by (simp add: s2_def s1_def s0_def notify_def)
  obtain s3 where C: "ensureBackupDir env
         (if isAbsolute (backupPath (settings s2)) then backupPath (settings s2)
          else join (vaultPath env) (backupPath (settings s2))) s2 = Inr s3"
    and c: "settings s3 = settings s2" "notices s3 = notices s2" "archives s3 = archives s2"
      "console s3 = console s2"
    using ensureBackupDir_ok [OF ok(2)] by blast
  have C1: "isAbsolute (backupPath (settings s)) \<Longrightarrow>
      ensureBackupDir env (backupPath (settings s)) s2 = Inr s3"
    and C2: "\<not> isAbsolute (backupPath (settings s)) \<Longrightarrow>
      ensureBackupDir env (join (vaultPath env) (backupPath (settings s))) s2 = Inr s3"
    using C by (simp_all add: set2)
  define s4 where "s4 = s3\<lparr>disk := putFile (getBackupPath env s3 (zipName env)) (writeTime env) (disk s3),
      archives := archives s3 @ [(getBackupPath env s3 (zipName env), z)]\<rparr>"
  have D: "writeZip env z (getBackupPath env s3 (zipName env)) s3 = Inr s4"
    using ok(3) by (simp add: writeZip_def s4_def)
  define s5 where "s5 = copyToSecondary env z s4"
  have set5: "settings s5 = settings s"
    by (simp add: s5_def copyToSecondary_settings s4_def c set2)
  have gp: "getBackupPath env s3 (zipName env) = getBackupPath env s (zipName env)"
    by (simp add: getBackupPath_def c set2)
  have tried: "createBackup_try env s0 =
      Inr (notify BackupCreated (cleanOldBackups (adapterBackupPath env)
              (s5\<lparr>settings := (settings s)\<lparr>lastBackupTime := nowAfterCopy env\<rparr>,
                  savedData := (settings s)\<lparr>lastBackupTime := nowAfterCopy env\<rparr>\<rparr>)))"
    using path(1) ok(4)
    by (simp add: createBackup_try_def A B set2 C1 C2 D Let_def saveSettings_def s5_def [symmetric] set5)
  have run: "createBackup env s =
           (notify BackupCreated (cleanOldBackups (adapterBackupPath env)
              (s5\<lparr>settings := (settings s)\<lparr>lastBackupTime := nowAfterCopy env\<rparr>,
                  savedData := (settings s)\<lparr>lastBackupTime := nowAfterCopy env\<rparr>\<rparr>)))\<lparr>isBackupInProgress := False\<rparr>"
    using path by (simp add: createBackup_def createBackup_begin_def createBackup_rest_def
        s0_def [symmetric] tried)
  have arch: "(getBackupPath env s (zipName env), z) \<in> set (archives s5)"
    unfolding s5_def by (rule copyToSecondary_archives) (simp add: s4_def gp)
  have cons: "\<forall>m \<in> set (consoleMsgs (addChildren files ''.obsidian'')). m \<in> set (console s5)"
    unfolding s5_def by (intro ballI copyToSecondary_console) (simp add: s4_def c s2_def)
  have n4: "notices s4 = notices s @ StartingBackup #
                 progressNotices 0 (length (vaultFiles env)) (vaultFiles env) @ [VerifyingBackup]"
    by (simp add: s4_def c s2_def s1_def s0_def notify_def)
  have noted: "\<exists>extra. notices s5 = notices s @ StartingBackup #
                 progressNotices 0 (length (vaultFiles env)) (vaultFiles env) @ VerifyingBackup # extra
               \<and> set extra \<subseteq> {SecondaryMissing}"
  proof -
    from copyToSecondary_notices [of env z s4]
    have "notices s5 = notices s4 @ [] \<or> notices s5 = notices s4 @ [SecondaryMissing]"
      by (simp add: s5_def)
    then show ?thesis
      unfolding n4 by (elim disjE) (rule exI [of _ "[]"], simp, rule exI [of _ "[SecondaryMissing]"], simp)
  qed
  show ?thesis
    using run arch cons noted unfolding z_def by blast
qed


text \<open>
  C6, as the code has it. A regular file whose raw read fails and whose read as text
  succeeds is added with the text. A regular file for which both reads fail adds no
  entry and one console error, between the unchanged contributions of the entries
  before and after it. In a run in which nothing else throws, the archive written to the
  primary destination holds the vault's files and the entries of the other files of the
  metadata folder; the console holds the error for the skipped file; the last notice is
  "Backup Created"; the run shows neither the "Partial" notice nor a "Backup failed"
  notice; \<^verbatim>\<open>lastBackupTime\<close> is updated and the flag is cleared.
\<close>

theorem unreadable_file_skipped:
  assumes path: "backupPath (settings s) \<noteq> []" "trim (backupPath (settings s)) \<noteq> []"
    and tree: "obsidianFolder env = Some (xs @ (name, RegularFile None None) # ys)"
    and ok: "readsSucceed env" "mkdirSucceeds env" "writeZipOutcome env = Written" "saveDataError env = None"
  shows "addChild fileName (RegularFile None (Some text)) zipPath = [AddFile zipPath text]
     \<and> addChildren (xs @ (name, RegularFile None None) # ys) zipBasePath
         = addChildren xs zipBasePath @ [Console (ErrorReadingFile (join zipBasePath name))]
             @ addChildren ys zipBasePath
     \<and> (getBackupPath env s (zipName env),
          vaultEntries (vaultFiles env) @ zipEntries (addChildren xs ''.obsidian'')
            @ zipEntries (addChildren ys ''.obsidian'')) \<in> set (archives (createBackup env s))
     \<and> ErrorReadingFile (join ''.obsidian'' name) \<in> set (console (createBackup env s))
     \<and> last (notices (createBackup env s)) = BackupCreated
     \<and> PartialObsidian \<notin> set (drop (length (notices s)) (notices (createBackup env s)))
     \<and> (\<forall>m. BackupFailed m \<notin> set (drop (length (notices s)) (notices (createBackup env s))))
     \<and> lastBackupTime (settings (createBackup env s)) = nowAfterCopy env
     \<and> \<not> isBackupInProgress (createBackup env s)"
proof -
  let ?files = "xs @ (name, RegularFile None None) # ys"
  let ?progress = "progressNotices 0 (length (vaultFiles env)) (vaultFiles env)"
  have walk: "addChildren ?files z
         = addChildren xs z @ [Console (ErrorReadingFile (join z name))] @ addChildren ys z" for z
    by (simp add: addChildren_append)
  obtain s5 extra where run: "createBackup env s =
           (notify BackupCreated (cleanOldBackups (adapterBackupPath env)
              (s5\<lparr>settings := (settings s)\<lparr>lastBackupTime := nowAfterCopy env\<rparr>,
                  savedData := (settings s)\<lparr>lastBackupTime := nowAfterCopy env\<rparr>\<rparr>)))\<lparr>isBackupInProgress := False\<rparr>"
    and arch: "(getBackupPath env s (zipName env),
              vaultEntries (vaultFiles env) @ zipEntries (addChildren ?files ''.obsidian'')) \<in> set (archives s5)"
    and cons: "\<forall>m \<in> set (consoleMsgs (addChildren ?files ''.obsidian'')). m \<in> set (console s5)"
    and n5: "notices s5 = notices s @ StartingBackup # ?progress @ VerifyingBackup # extra"
    and extra: "set extra \<subseteq> {SecondaryMissing}"
    using createBackup_succeeds [OF path tree ok] by blast
  have shown: "notices (createBackup env s)
       = notices s @ StartingBackup # ?progress @ VerifyingBackup # extra @ [BackupCreated]"
    by (simp add: run notify_def cleanOldBackups_notices n5)
  have new: "drop (length (notices s)) (notices (createBackup env s))
       = StartingBackup # ?progress @ VerifyingBackup # extra @ [BackupCreated]"
    by (simp add: shown)
  have prog: "PartialObsidian \<notin> set ?progress" "BackupFailed m \<notin> set ?progress" for m
    using progressNotices_only by blast+
  have ext: "PartialObsidian \<notin> set extra" "BackupFailed m \<notin> set extra" for m
    using extra by auto
  have c1: "(getBackupPath env s (zipName env),
          vaultEntries (vaultFiles env) @ zipEntries (addChildren xs ''.obsidian'')
            @ zipEntries (addChildren ys ''.obsidian'')) \<in> set (archives (createBackup env s))"
    using arch by (simp add: run notify_def cleanOldBackups_archives walk zipEntries_append)
  have "ErrorReadingFile (join ''.obsidian'' name) \<in> set (console s5)"
    using cons by (simp add: walk consoleMsgs_append)
  then have c2: "ErrorReadingFile (join ''.obsidian'' name) \<in> set (console (createBackup env s))"
    by (simp add: run notify_def cleanOldBackups_console)
  have c3: "last (notices (createBackup env s)) = BackupCreated"
    by (simp add: shown)
  have c4: "PartialObsidian \<notin> set (drop (length (notices s)) (notices (createBackup env s)))"
    unfolding new using prog(1) ext(1) by simp
  have c5: "\<forall>m. BackupFailed m \<notin> set (drop (length (notices s)) (notices (createBackup env s)))"
    unfolding new using prog(2) ext(2) by simp
  have c6: "lastBackupTime (settings (createBackup env s)) = nowAfterCopy env"
    by (simp add: run notify_def cleanOldBackups_settings)
  have c7: "\<not> isBackupInProgress (createBackup env s)"
    by (simp add: run)
  show ?thesis
    using walk c1 c2 c3 c4 c5 c6 c7 by simp
qed

text \<open>The folder of ten files: the archive holds the vault's file and the nine others.\<close>

theorem unreadable_file_skipped_witness:
  "backupPath (settings demo_state) \<noteq> [] \<and> trim (backupPath (settings demo_state)) \<noteq> []
   \<and> readsSucceed ten_env \<and> mkdirSucceeds ten_env
   \<and> writeZipOutcome ten_env = Written \<and> saveDataError ten_env = None
   \<and> length ten_files = 10 \<and> ten_files ! 3 = (''workspace.json'', RegularFile None None)
   \<and> ((''/backups'', ''2024-01-02T03-04-05_V.zip''),
        [(''note.md'', ''hello''),
         (''.obsidian/app.json'', ''a''), (''.obsidian/appearance.json'', ''b''),
         (''.obsidian/community-plugins.json'', ''c''), (''.obsidian/core-plugins.json'', ''d''),
         (''.obsidian/graph.json'', ''e''), (''.obsidian/hotkeys.json'', ''f''),
         (''.obsidian/types.json'', ''g''), (''.obsidian/bookmarks.json'', ''h''),
         (''.obsidian/templates.json'', ''i'')]) \<in> set (archives (createBackup ten_env demo_state))
   \<and> last (notices (createBackup ten_env demo_state)) = BackupCreated
   \<and> lastBackupTime (settings (createBackup ten_env demo_state)) = 11"
proof -
  have p1: "backupPath (settings demo_state) \<noteq> []"
    by (simp add: demo_defs)
  have p2: "trim (backupPath (settings demo_state)) \<noteq> []"
    by (simp add: demo_defs trim_def isWhiteSpace_def)
  have tree: "obsidianFolder ten_env =
      Some ([(''app.json'', RegularFile (Some ''a'') (Some ''a'')),
             (''appearance.json'', RegularFile (Some ''b'') (Some ''b'')),
             (''community-plugins.json'', RegularFile (Some ''c'') (Some ''c''))]
            @ (''workspace.json'', RegularFile None None)
            # [(''core-plugins.json'', RegularFile (Some ''d'') (Some ''d'')),
               (''graph.json'', RegularFile (Some ''e'') (Some ''e'')),
               (''hotkeys.json'', RegularFile (Some ''f'') (Some ''f'')),
               (''types.json'', RegularFile (Some ''g'') (Some ''g'')),
               (''bookmarks.json'', RegularFile None (Some ''h'')),
               (''templates.json'', RegularFile (Some ''i'') (Some ''i''))])"
    by (simp add: ten_env_def ten_files_def)
  have ok: "readsSucceed ten_env" "mkdirSucceeds ten_env" "writeZipOutcome ten_env = Written"
    "saveDataError ten_env = None"
    by (simp_all add: ten_env_def demo_defs readsSucceed_def mkdirSucceeds_def)
  have shape: "length ten_files = 10" "ten_files ! 3 = (''workspace.json'', RegularFile None None)"
    by (simp_all add: ten_files_def)
  have names: "getBackupPath ten_env demo_state (zipName ten_env) = (''/backups'', ''2024-01-02T03-04-05_V.zip'')"
    "vaultEntries (vaultFiles ten_env) = [(''note.md'', ''hello'')]" "nowAfterCopy ten_env = 11"
    by (simp_all add: ten_env_def demo_defs getBackupPath_def zipName_def timestamp_def
        slice_0_minus5_def isAbsolute_def)
  show ?thesis
    using p1 p2 ok shape unreadable_file_skipped [OF p1 p2 tree ok]
    by (simp add: names join_def)
qed


lemma percent_whole: "percent (Suc 0) (Suc 0) = 100"
  by (simp add: percent_def)

text \<open>
  C6 as stated fails in its last part: the run with the unreadable file shows exactly
  the notices of the run in which all ten files are readable, ending in "Backup
  Created"; it is not reported as partial. Only the console tells the two runs apart.
\<close>

theorem unreadable_file_reported_as_success:
  "notices (createBackup ten_env demo_state)
     = [StartingBackup, AddingFiles 100, VerifyingBackup, BackupCreated]
   \<and> notices (createBackup ten_readable_env demo_state)
     = [StartingBackup, AddingFiles 100, VerifyingBackup, BackupCreated]
   \<and> ErrorReadingFile ''.obsidian/workspace.json'' \<in> set (console (createBackup ten_env demo_state))"
  by (simp add: ten_env_def ten_readable_env_def ten_files_def demo_defs run_defs eval_defs percent_whole)

subsection \<open>Symbolic links\<close>

lemma addChildren_member:
  "(name, node) \<in> set files \<Longrightarrow> e \<in> set (addChild name node (join z name)) \<Longrightarrow>
   e \<in> set (addChildren files z)"
proof (induction files)
  case Nil
  then show ?case by simp
next
  case (Cons a files)
  then show ?case by (cases a) auto
qed

lemma linkAt_entry:
  "linkAt files z p t \<Longrightarrow> AddFile p t \<in> set (addChildren files z)"
proof (induction rule: linkAt.induct)
  case (here name linkTarget referent files zipBasePath)
  then show ?case
    by (auto intro: addChildren_member)
next
  case (below name children files zipBasePath zipPath linkTarget)
  have "AddFile zipPath linkTarget
      \<in> set (addChild name (Directory (Some children)) (join zipBasePath name))"
    using below.IH by simp
  with below.hyps(1) show ?case
    by (rule addChildren_member)
qed

lemma zipEntries_member: "AddFile p c \<in> set es \<Longrightarrow> (p, c) \<in> set (zipEntries es)"
  by (induction es rule: zipEntries.induct) auto


text \<open>
  C9, as the code has it. When the metadata folder can be listed, its traversal adds
  its entries to the archive being built; in a run in which nothing throws, the archive
  written to the primary destination holds the vault's files followed by these
  entries. For every symbolic link in that folder, at any depth below
  folders that can be listed, whose target \<^verbatim>\<open>readlink\<close> returns, these entries contain one
  named by the link's archive path whose content is the target string. A link in the
  listing of the folder, between any entries \<open>xs\<close> and \<open>ys\<close>, adds exactly that one
  entry between the entries of \<open>xs\<close> and those of \<open>ys\<close>, whatever the link points
  to (\<open>referent\<close>); the same holds in every folder met during the traversal.
\<close>

theorem symlink_entry_is_target:
  assumes path: "backupPath (settings s) \<noteq> []" "trim (backupPath (settings s)) \<noteq> []"
    and tree: "obsidianFolder env = Some files"
    and ok: "readsSucceed env" "mkdirSucceeds env" "writeZipOutcome env = Written" "saveDataError env = None"
  shows "fst (addObsidianFolder env zipFile state) = zipFile @ zipEntries (addChildren files ''.obsidian'')
     \<and> (getBackupPath env s (zipName env),
          vaultEntries (vaultFiles env) @ zipEntries (addChildren files ''.obsidian''))
            \<in> set (archives (createBackup env s))
     \<and> (\<forall>zipPath linkTarget. linkAt files ''.obsidian'' zipPath linkTarget \<longrightarrow>
            (zipPath, linkTarget) \<in> set (zipEntries (addChildren files ''.obsidian'')))
     \<and> (\<forall>xs name linkTarget referent ys.
            files = xs @ (name, SymbolicLink (Some linkTarget) referent) # ys \<longrightarrow>
            zipEntries (addChildren files ''.obsidian'')
              = zipEntries (addChildren xs ''.obsidian'') @ [(join ''.obsidian'' name, linkTarget)]
                  @ zipEntries (addChildren ys ''.obsidian''))
     \<and> addChild dirName (Directory (Some (before @ (linkName, SymbolicLink (Some target) pointee) # after))) zipPath
         = AddFile (zipPath @ ''/'') [] # addChildren before zipPath
             @ [AddFile (join zipPath linkName) target] @ addChildren after zipPath"
proof -
  obtain s5 where run: "createBackup env s =
           (notify BackupCreated (cleanOldBackups (adapterBackupPath env)
              (s5\<lparr>settings := (settings s)\<lparr>lastBackupTime := nowAfterCopy env\<rparr>,
                  savedData := (settings s)\<lparr>lastBackupTime := nowAfterCopy env\<rparr>\<rparr>)))\<lparr>isBackupInProgress := False\<rparr>"
    and arch: "(getBackupPath env s (zipName env),
              vaultEntries (vaultFiles env) @ zipEntries (addChildren files ''.obsidian'')) \<in> set (archives s5)"
    using createBackup_succeeds [OF path tree ok] by blast
  have c1: "(getBackupPath env s (zipName env),
          vaultEntries (vaultFiles env) @ zipEntries (addChildren files ''.obsidian''))
            \<in> set (archives (createBackup env s))"
    using arch by (simp add: run notify_def cleanOldBackups_archives)
  have c2: "\<forall>zipPath linkTarget. linkAt files ''.obsidian'' zipPath linkTarget \<longrightarrow>
            (zipPath, linkTarget) \<in> set (zipEntries (addChildren files ''.obsidian''))"
    by (intro allI impI zipEntries_member linkAt_entry)
  have c3: "\<forall>xs name linkTarget referent ys.
            files = xs @ (name, SymbolicLink (Some linkTarget) referent) # ys \<longrightarrow>
            zipEntries (addChildren files ''.obsidian'')
              = zipEntries (addChildren xs ''.obsidian'') @ [(join ''.obsidian'' name, linkTarget)]
                  @ zipEntries (addChildren ys ''.obsidian'')"
    by (simp add: addChildren_append zipEntries_append)
  have c4: "addChild dirName (Directory (Some (before @ (linkName, SymbolicLink (Some target) pointee) # after))) zipPath
         = AddFile (zipPath @ ''/'') [] # addChildren before zipPath
             @ [AddFile (join zipPath linkName) target] @ addChildren after zipPath"
    by (simp add: addChildren_append)
  have c0: "fst (addObsidianFolder env zipFile state) = zipFile @ zipEntries (addChildren files ''.obsidian'')"
    by (simp add: addObsidianFolder_listed [OF tree])
  show ?thesis
    using c0 c1 c2 c3 c4 by blast
qed

text \<open>
  A link to a directory with a file in it, a link to the folder itself and a link in a
  subfolder: the archive written holds one entry for each, filled with the target string.
\<close>

theorem symlink_entry_is_target_witness:
  "backupPath (settings demo_state) \<noteq> [] \<and> trim (backupPath (settings demo_state)) \<noteq> []
   \<and> readsSucceed linked_env \<and> mkdirSucceeds linked_env
   \<and> writeZipOutcome linked_env = Written \<and> saveDataError linked_env = None
   \<and> linkAt linked_folder ''.obsidian'' ''.obsidian/plugins/cfg'' ''../cfg.json''
   \<and> ((''/backups'', ''2024-01-02T03-04-05_V.zip''),
        [(''note.md'', ''hello''), (''.obsidian/app.json'', ''{}''),
         (''.obsidian/themes'', ''/shared/themes''), (''.obsidian/loop'', ''.''),
         (''.obsidian/plugins/'', []), (''.obsidian/plugins/cfg'', ''../cfg.json'')])
         \<in> set (archives (createBackup linked_env demo_state))"
proof -
  have p1: "backupPath (settings demo_state) \<noteq> []"
    by (simp add: demo_defs)
  have p2: "trim (backupPath (settings demo_state)) \<noteq> []"
    by (simp add: demo_defs trim_def isWhiteSpace_def)
  have tree: "obsidianFolder linked_env = Some linked_folder"
    by (simp add: linked_env_def)
  have ok: "readsSucceed linked_env" "mkdirSucceeds linked_env" "writeZipOutcome linked_env = Written"
    "saveDataError linked_env = None"
    by (simp_all add: linked_env_def demo_defs readsSucceed_def mkdirSucceeds_def)
  have "linkAt [(''cfg'', SymbolicLink (Some ''../cfg.json'') (Some NoStat))]
      (join ''.obsidian'' ''plugins'') (join (join ''.obsidian'' ''plugins'') ''cfg'') ''../cfg.json''"
    by (rule linkAt.here) simp
  then have "linkAt linked_folder ''.obsidian'' (join (join ''.obsidian'' ''plugins'') ''cfg'') ''../cfg.json''"
    by (rule linkAt.below [rotated]) (simp add: linked_folder_def)
  then have link: "linkAt linked_folder ''.obsidian'' ''.obsidian/plugins/cfg'' ''../cfg.json''"
    by (simp add: join_def)
  have names: "getBackupPath linked_env demo_state (zipName linked_env) = (''/backups'', ''2024-01-02T03-04-05_V.zip'')"
    "vaultEntries (vaultFiles linked_env) = [(''note.md'', ''hello'')]"
    by (simp_all add: linked_env_def demo_defs getBackupPath_def zipName_def timestamp_def
        slice_0_minus5_def isAbsolute_def)
  show ?thesis
    using p1 p2 ok link symlink_entry_is_target [OF p1 p2 tree ok]
    by (simp add: names linked_folder_def join_def)
qed

text \<open>
  C9 as stated fails for a link whose target cannot be read: \<^verbatim>\<open>readlink\<close> throws, the
  \<^verbatim>\<open>catch\<close> around the entry logs a warning, and the archives written hold no entry for
  the link; the run ends with "Backup Created".
\<close>

theorem unreadable_link_gives_no_entry:
  "archives (createBackup unreadable_link_env demo_state)
     = [((''/backups'', ''2024-01-02T03-04-05_V.zip''),
         [(''note.md'', ''hello''), (''.obsidian/app.json'', ''{}'')]),
        ((''/mirror'', ''2024-01-02T03-04-05_V.zip''),
         [(''note.md'', ''hello''), (''.obsidian/app.json'', ''{}'')])]
   \<and> console (createBackup unreadable_link_env demo_state) ! 0 = SkippingProblematicPath
   \<and> last (notices (createBackup unreadable_link_env demo_state)) = BackupCreated"
  by (simp add: unreadable_link_env_def demo_defs run_defs eval_defs percent_whole)


subsection \<open>Retention keeps the newest archives\<close>

lemma statAll_Some:
  "\<forall>f \<in> set zs. mtime f \<noteq> None \<Longrightarrow> statAll zs = Some (map stat1 zs)"
  by (induction zs) (auto simp: stat1_def)

lemma deleteFiles_disk:
  "disk s dir = Some files \<Longrightarrow>
   \<forall>b \<in> set bs. \<exists>f \<in> set files. fname f = fst b \<and> \<not> undeletable f \<Longrightarrow>
   distinct (map fst bs) \<Longrightarrow>
   disk (deleteFiles dir bs s) dir = Some (filter (\<lambda>f. fname f \<notin> fst ` set bs) files)"
proof (induction bs arbitrary: s files)
  case Nil
  then show ?case by simp
next
  case (Cons b rest)
  let ?files' = "filter (\<lambda>f. fname f \<noteq> fst b) files"
  let ?s' = "logConsole (DeletedOldBackup (fst b)) (s\<lparr>disk := (disk s)(dir := Some ?files')\<rparr>)"
  have u: "unlink dir (fst b) (disk s) = Some ((disk s)(dir := Some ?files'))"
    using Cons.prems(1,2) by (auto simp: unlink_def)
  have step: "deleteFiles dir (b # rest) s = deleteFiles dir rest ?s'"
    by (simp add: u)
  have d': "disk ?s' dir = Some ?files'"
    by (simp add: logConsole_def)
  have ex': "\<forall>b' \<in> set rest. \<exists>f \<in> set ?files'. fname f = fst b' \<and> \<not> undeletable f"
  proof
    fix b' assume b': "b' \<in> set rest"
    then obtain f where f: "f \<in> set files" "fname f = fst b'" "\<not> undeletable f"
      using Cons.prems(2) by auto
    have "fst b \<notin> fst ` set rest"
      using Cons.prems(3) by simp
    then have "fst b' \<noteq> fst b"
      using b' by (metis imageI)
    with f show "\<exists>f \<in> set ?files'. fname f = fst b' \<and> \<not> undeletable f"
      by auto
  qed
  have dist': "distinct (map fst rest)"
    using Cons.prems(3) by simp
  have "disk (deleteFiles dir rest ?s') dir = Some (filter (\<lambda>f. fname f \<notin> fst ` set rest) ?files')"
    by (rule Cons.IH [OF d' ex' dist'])
  also have "filter (\<lambda>f. fname f \<notin> fst ` set rest) ?files'
      = filter (\<lambda>f. fname f \<notin> fst ` set (b # rest)) files"
    by (auto intro: filter_cong)
  finally show ?case
    by (simp only: step)
qed

lemma sortNewestFirst_set: "set (sortNewestFirst bs) = set bs"
  by (simp add: sortNewestFirst_def)

lemma sortNewestFirst_distinct: "distinct (sortNewestFirst bs) = distinct bs"
  by (simp add: sortNewestFirst_def)

lemma sortNewestFirst_length: "length (sortNewestFirst bs) = length bs"
  by (simp add: sortNewestFirst_def)

lemma sortNewestFirst_split:
  assumes "x \<in> set (take n (sortNewestFirst bs))" and "y \<in> set (drop n (sortNewestFirst bs))"
  shows "snd y \<le> snd x"
proof -
  let ?S = "sortNewestFirst bs"
  have "sorted (map (\<lambda>b. - snd b) ?S)"
    by (simp add: sortNewestFirst_def)
  then have "sorted (map (\<lambda>b. - snd b) (take n ?S) @ map (\<lambda>b. - snd b) (drop n ?S))"
    by (simp only: map_append [symmetric] append_take_drop_id)
  then have "\<forall>a \<in> set (map (\<lambda>b. - snd b) (take n ?S)). \<forall>c \<in> set (map (\<lambda>b. - snd b) (drop n ?S)). a \<le> c"
    by (simp only: sorted_append) blast
  with assms have "- snd x \<le> - snd y"
    by auto
  then show ?thesis by simp
qed


lemma distinct_map_sortNewestFirst:
  "distinct (map f (sortNewestFirst bs)) = distinct (map f bs)"
  by (simp add: distinct_map sortNewestFirst_set sortNewestFirst_distinct)

text \<open>
  C8. Let a directory hold \<open>M\<close> archive files (names ending in \<^verbatim>\<open>.zip\<close>) with distinct
  modification times, and let \<open>0 < N < M\<close>. When \<^verbatim>\<open>readdir\<close>, every \<^verbatim>\<open>stat\<close> and every
  \<^verbatim>\<open>unlink\<close> succeed, \<^verbatim>\<open>cleanDirectory\<close> with keep-count \<open>N\<close> leaves a listing in which
  the other files are as before, exactly \<open>N\<close> archives remain, \<open>M - N\<close> files are gone,
  and every remaining archive is newer than every archive that was removed.
\<close>

theorem cleanDirectory_keeps_newest:
  assumes listing: "disk s dir = Some files"
    and names: "distinct (map fname files)"
    and stats: "\<forall>f \<in> set files. isZip f \<longrightarrow> mtime f \<noteq> None"
    and times: "distinct (map mtime (filter isZip files))"
    and deletable: "\<forall>f \<in> set files. isZip f \<longrightarrow> \<not> undeletable f"
    and count: "0 < N" "nat N < length (filter isZip files)"
  shows "\<exists>kept. disk (cleanDirectory dir N s) dir = Some kept
      \<and> filter (\<lambda>f. \<not> isZip f) kept = filter (\<lambda>f. \<not> isZip f) files
      \<and> set kept \<subseteq> set files
      \<and> length (filter isZip kept) = nat N
      \<and> length files - length kept = length (filter isZip files) - nat N
      \<and> (\<forall>k \<in> set kept. \<forall>d \<in> set files. isZip k \<and> isZip d \<and> d \<notin> set kept \<longrightarrow>
            (\<exists>t u. mtime k = Some t \<and> mtime d = Some u \<and> u < t))"
proof -
  define zs where "zs = filter isZip files"
  define bs where "bs = map stat1 zs"
  define S where "S = sortNewestFirst bs"
  define n where "n = nat N"
  define del where "del = drop n S"
  define kept where "kept = filter (\<lambda>f. fname f \<notin> fst ` set del) files"
  have zs_sub: "set zs \<subseteq> set files" and zs_zip: "\<And>f. f \<in> set zs \<Longrightarrow> isZip f"
    by (auto simp: zs_def)
  have inj_name: "inj_on fname (set files)"
    using names by (simp add: distinct_map)
  have dist_files: "distinct files"
    using names by (simp add: distinct_map)
  have dist_zs: "distinct zs"
    using dist_files by (simp add: zs_def)
  have inj_stat: "inj_on stat1 (set zs)"
    using inj_name zs_sub by (auto simp: inj_on_def stat1_def)
  have dist_bs: "distinct bs"
    using dist_zs inj_stat by (simp add: bs_def distinct_map)
  have set_S: "set S = stat1 ` set zs"
    by (simp add: S_def sortNewestFirst_set bs_def)
  have dist_S: "distinct S"
    by (simp add: S_def sortNewestFirst_distinct dist_bs)
  have len_S: "length S = length zs"
    by (simp add: S_def sortNewestFirst_length bs_def)
  have n_lt: "n < length S"
    using count(2) by (simp add: n_def len_S zs_def)
  have del_sub: "set del \<subseteq> stat1 ` set zs"
    using set_drop_subset [of n S] by (simp add: del_def set_S)
  have h1: "statAll zs = Some bs"
    unfolding bs_def by (rule statAll_Some) (use stats zs_sub zs_zip in auto)
  have h2: "slice_from N S = del"
    using count(1) by (simp add: slice_from_def del_def n_def)
  have h3: "cleanDirectory dir N s = deleteFiles dir del s"
    by (simp add: cleanDirectory_def listing zs_def [symmetric] h1 S_def [symmetric] h2)
  have ex: "\<forall>b \<in> set del. \<exists>f \<in> set files. fname f = fst b \<and> \<not> undeletable f"
  proof
    fix b assume "b \<in> set del"
    then obtain f where f: "f \<in> set zs" "b = stat1 f"
      using del_sub by auto
    then show "\<exists>f \<in> set files. fname f = fst b \<and> \<not> undeletable f"
      using deletable zs_sub zs_zip by (auto simp: stat1_def)
  qed
  have "map fst bs = map fname zs"
    by (simp add: bs_def stat1_def comp_def)
  then have "distinct (map fst bs)"
    using names by (simp add: zs_def distinct_map_filter)
  then have "distinct (map fst S)"
    by (simp add: S_def distinct_map_sortNewestFirst)
  then have dist_del: "distinct (map fst del)"
    by (simp add: del_def drop_map [symmetric])
  have h5: "disk (cleanDirectory dir N s) dir = Some kept"
    unfolding h3 kept_def by (rule deleteFiles_disk [OF listing ex dist_del])
  have name_del: "fname f \<in> fst ` set del \<longleftrightarrow> stat1 f \<in> set del" if "f \<in> set files" for f
  proof
    assume "fname f \<in> fst ` set del"
    then obtain b where b: "b \<in> set del" "fst b = fname f" by auto
    then obtain g where g: "g \<in> set zs" "b = stat1 g" using del_sub by auto
    then have "fname g = fname f" using b by (simp add: stat1_def)
    then have "g = f" using inj_name g(1) zs_sub that by (auto dest: inj_onD)
    with g b show "stat1 f \<in> set del" by simp
  next
    assume "stat1 f \<in> set del"
    then show "fname f \<in> fst ` set del" by (force simp: stat1_def)
  qed
  have take_drop: "x \<in> set S \<Longrightarrow> x \<notin> set del \<longleftrightarrow> x \<in> set (take n S)" for x
  proof -
    assume x: "x \<in> set S"
    have "set (take n S) \<inter> set (drop n S) = {}"
      using dist_S by (metis append_take_drop_id distinct_append)
    moreover have "set S = set (take n S) \<union> set (drop n S)"
      by (metis append_take_drop_id set_append)
    ultimately show ?thesis using x by (auto simp: del_def)
  qed
  have c_a: "filter (\<lambda>f. \<not> isZip f) kept = filter (\<lambda>f. \<not> isZip f) files"
  proof -
    have "fname f \<notin> fst ` set del" if "f \<in> set files" "\<not> isZip f" for f
    proof
      assume "fname f \<in> fst ` set del"
      then obtain b where b: "b \<in> set del" "fst b = fname f" by auto
      then obtain g where g: "g \<in> set zs" "b = stat1 g" using del_sub by auto
      then have "fname g = fname f" "isZip g" using b zs_zip by (simp_all add: stat1_def)
      then show False using that(2) by (simp add: isZip_def)
    qed
    then show ?thesis
      unfolding kept_def by (auto intro: filter_cong)
  qed
  have c_b: "set kept \<subseteq> set files"
    by (auto simp: kept_def)
  have zkept: "filter isZip kept = filter (\<lambda>f. stat1 f \<in> set (take n S)) zs"
  proof -
    have "filter isZip kept = filter (\<lambda>f. fname f \<notin> fst ` set del) zs"
      by (simp add: kept_def zs_def conj_commute)
    also have "\<dots> = filter (\<lambda>f. stat1 f \<in> set (take n S)) zs"
    proof (rule filter_cong [OF refl])
      fix f assume f: "f \<in> set zs"
      then have "stat1 f \<in> set S" by (simp add: set_S)
      then show "(fname f \<notin> fst ` set del) = (stat1 f \<in> set (take n S))"
        using name_del [of f] take_drop [of "stat1 f"] f zs_sub by auto
    qed
    finally show ?thesis .
  qed
  have c_c: "length (filter isZip kept) = nat N"
  proof -
    let ?K = "{f. stat1 f \<in> set (take n S)} \<inter> set zs"
    have "length (filter isZip kept) = card ?K"
      unfolding zkept using dist_zs by (simp add: distinct_length_filter)
    also have "\<dots> = card (stat1 ` ?K)"
      by (rule card_image [symmetric]) (rule inj_on_subset [OF inj_stat], simp)
    also have "stat1 ` ?K = set (take n S)"
    proof
      show "stat1 ` ?K \<subseteq> set (take n S)" by auto
      show "set (take n S) \<subseteq> stat1 ` ?K"
      proof
        fix x assume x: "x \<in> set (take n S)"
        then have "x \<in> set S" by (rule in_set_takeD)
        then obtain f where "f \<in> set zs" "x = stat1 f" using set_S by auto
        with x show "x \<in> stat1 ` ?K" by auto
      qed
    qed
    also have "card (set (take n S)) = length (take n S)"
      using dist_S by (simp add: distinct_card)
    also have "\<dots> = n"
      using n_lt by simp
    finally show ?thesis by (simp add: n_def)
  qed
  have c_d: "length files - length kept = length (filter isZip files) - nat N"
  proof -
    have "length kept = length (filter isZip kept) + length (filter (\<lambda>f. \<not> isZip f) kept)"
      by (rule sum_length_filter_compl [symmetric])
    moreover have "length files = length (filter isZip files) + length (filter (\<lambda>f. \<not> isZip f) files)"
      by (rule sum_length_filter_compl [symmetric])
    ultimately show ?thesis
      using c_a c_c by simp
  qed
  have c_e: "\<forall>k \<in> set kept. \<forall>d \<in> set files. isZip k \<and> isZip d \<and> d \<notin> set kept \<longrightarrow>
            (\<exists>t u. mtime k = Some t \<and> mtime d = Some u \<and> u < t)"
  proof (intro ballI impI)
    fix k d
    assume k: "k \<in> set kept" and d: "d \<in> set files" and zz: "isZip k \<and> isZip d \<and> d \<notin> set kept"
    have kz: "k \<in> set zs" and dz: "d \<in> set zs"
      using k d zz c_b by (auto simp: zs_def)
    have "k \<in> set (filter isZip kept)"
      using k zz by simp
    then have kt: "stat1 k \<in> set (take n S)"
      unfolding zkept by simp
    have "fname d \<in> fst ` set del"
      using d zz by (auto simp: kept_def)
    then have dd: "stat1 d \<in> set (drop n S)"
      using name_del [OF d] by (simp add: del_def)
    have le: "snd (stat1 d) \<le> snd (stat1 k)"
      using sortNewestFirst_split [of "stat1 k" n bs "stat1 d"] kt dd by (simp add: S_def)
    obtain t u where t: "mtime k = Some t" and u: "mtime d = Some u"
      using stats kz dz zs_sub zs_zip by (metis not_None_eq subsetD)
    have "stat1 k \<noteq> stat1 d"
      using kt dd dist_S by (metis append_take_drop_id distinct_append disjoint_iff)
    then have "k \<noteq> d" by auto
    moreover have "inj_on mtime (set zs)"
      using times by (simp add: zs_def distinct_map)
    ultimately have "mtime k \<noteq> mtime d"
      using kz dz by (auto dest: inj_onD)
    with le t u have "u < t"
      by (simp add: stat1_def)
    with t u show "\<exists>t u. mtime k = Some t \<and> mtime d = Some u \<and> u < t"
      by simp
  qed
  show ?thesis
    using h5 c_a c_b c_c c_d c_e by blast
qed


text \<open>The scenario of the specification: five archives, keep-count 2; the two newest remain.\<close>

theorem cleanDirectory_keeps_newest_witness:
  "disk five_state ''/backups'' = Some five_files
   \<and> distinct (map fname five_files)
   \<and> distinct (map mtime (filter isZip five_files))
   \<and> length (filter isZip five_files) = 5
   \<and> list_all (\<lambda>f. mtime f \<noteq> None \<and> \<not> undeletable f) five_files
   \<and> disk (cleanDirectory ''/backups'' 2 five_state) ''/backups''
       = Some [\<lparr>fname = ''fri.zip'', mtime = Some 500, undeletable = False\<rparr>,
               \<lparr>fname = ''readme.txt'', mtime = Some 900, undeletable = False\<rparr>,
               \<lparr>fname = ''thu.zip'', mtime = Some 400, undeletable = False\<rparr>]"
proof -
  have listing: "disk five_state ''/backups'' = Some five_files"
    by (simp add: five_state_def)
  have names: "distinct (map fname five_files)"
    by (simp add: five_files_def)
  have stats: "\<forall>f \<in> set five_files. isZip f \<longrightarrow> mtime f \<noteq> None"
    by (simp add: five_files_def)
  have times: "distinct (map mtime (filter isZip five_files))"
    by (simp add: five_files_def isZip_def endsWith_def)
  have deletable: "\<forall>f \<in> set five_files. isZip f \<longrightarrow> \<not> undeletable f"
    by (simp add: five_files_def)
  have count: "(0::int) < 2" "nat 2 < length (filter isZip five_files)"
    by (simp_all add: five_files_def isZip_def endsWith_def)
  have five: "length (filter isZip five_files) = 5"
    by (simp add: five_files_def isZip_def endsWith_def)
  have all: "list_all (\<lambda>f. mtime f \<noteq> None \<and> \<not> undeletable f) five_files"
    by (simp add: five_files_def)
  have result: "disk (cleanDirectory ''/backups'' 2 five_state) ''/backups''
       = Some [\<lparr>fname = ''fri.zip'', mtime = Some 500, undeletable = False\<rparr>,
               \<lparr>fname = ''readme.txt'', mtime = Some 900, undeletable = False\<rparr>,
               \<lparr>fname = ''thu.zip'', mtime = Some 400, undeletable = False\<rparr>]"
    by (simp add: five_state_def five_files_def demo_defs eval_defs)
  show ?thesis
    using listing names times five all result
      cleanDirectory_keeps_newest [OF listing names stats times deletable count]
    by simp
qed

end
